theory Spec2Isabelle
  imports Main "HOL-Library.Multiset" "HOL-Library.Char_ord" "HOL-Library.List_Lexorder"
begin

section \<open>Go runtime and library surface\<close>

text \<open>
  Go strings are byte sequences and \<open><\<close> on them is the bytewise lexicographic order;
  \<^typ>\<open>string\<close> with the orders of \<open>Char_ord\<close> and \<open>List_Lexorder\<close> is that order, so
  \<open>sort.Strings\<close> is \<^const>\<open>sort\<close> on \<^typ>\<open>string list\<close>.

  A Go \<open>map[string]V\<close> is a partial function \<^typ>\<open>string \<rightharpoonup> 'v\<close>. The order in which
  \<open>for k, v := range m\<close> visits the entries is not specified by the language, so every
  function that ranges over a map takes the visiting order as an extra argument: a list of
  entries (or of keys). \<open>range_entries m es\<close> says that \<open>es\<close> is a possible visiting order
  of \<open>m\<close>: each entry of \<open>m\<close>, exactly once. The theorems hold for every such order.
\<close>

definition range_entries :: "(string \<rightharpoonup> 'v) \<Rightarrow> (string \<times> 'v) list \<Rightarrow> bool" where
  "range_entries m es = (distinct (map fst es) \<and> map_of es = m)"

definition range_keys :: "(string \<rightharpoonup> 'v) \<Rightarrow> string list \<Rightarrow> bool" where
  "range_keys m ks = (distinct ks \<and> set ks = dom m)"

text \<open>\<open>m[k]\<close> on a map of slices: a missing key reads as the nil slice.\<close>

definition index_or_nil :: "(string \<rightharpoonup> 'v list) \<Rightarrow> string \<Rightarrow> 'v list" where
  "index_or_nil m k = (case m k of None \<Rightarrow> [] | Some xs \<Rightarrow> xs)"

text \<open>\<open>fmt.Sprintf("%d", i)\<close>: decimal digits, a minus sign for negative numbers.\<close>

fun digits :: "nat \<Rightarrow> string" where
  "digits n = (if n < 10 then [''0123456789'' ! n]
               else digits (n div 10) @ [''0123456789'' ! (n mod 10)])"

declare digits.simps [simp del]

definition Sprintf_d :: "int \<Rightarrow> string" where
  "Sprintf_d i = (if i < 0 then CHR ''-'' # digits (nat (- i)) else digits (nat i))"

text \<open>\<open>strings.Join(elems, sep)\<close>.\<close>

fun Join :: "string list \<Rightarrow> string \<Rightarrow> string" where
  "Join [] sep = []"
| "Join [x] sep = x"
| "Join (x # y # ys) sep = x @ sep @ Join (y # ys) sep"

text \<open>The right arrow U+2192 of the change descriptors, as its three UTF-8 bytes.\<close>

definition arrow :: string where
  "arrow = [char_of (226 :: nat), char_of (134 :: nat), char_of (146 :: nat)]"


section \<open>Snapshot model (internal/interfaces, internal/monitor)\<close>

record Interface =
  Name :: string
  HardwareAddr :: string
  MTU :: int
  Flags :: "string list"

record interfaceChange =
  change_Name :: string
  Before :: Interface
  After :: Interface

record addressChange =
  addr_Name :: string
  Added :: "string list"
  Removed :: "string list"

text \<open>
  \<open>collect\<close> stores every interface under its own name
  (\<open>snap.interfaces[iface.Name] = iface\<close>); \<open>keyed_by_name\<close> is that property of the
  \<open>interfaces\<close> map of a snapshot.
\<close>

definition keyed_by_name :: "(string \<rightharpoonup> Interface) \<Rightarrow> bool" where
  "keyed_by_name m = (\<forall>k v. m k = Some v \<longrightarrow> Name v = k)"


section \<open>Diff engine: interfaces (watcher.go)\<close>

text \<open>The index loop shared by \<open>sameInterface\<close> and \<open>equalStrings\<close>.\<close>

definition equalStrings :: "string list \<Rightarrow> string list \<Rightarrow> bool" where
  "equalStrings a b =
     (if length a \<noteq> length b then False
      else list_all (\<lambda>i. a ! i = b ! i) [0..<length a])"

definition sameInterface :: "Interface \<Rightarrow> Interface \<Rightarrow> bool" where
  "sameInterface a b =
     (if Name a \<noteq> Name b \<or> HardwareAddr a \<noteq> HardwareAddr b \<or> MTU a \<noteq> MTU b then False
      else if length (Flags a) \<noteq> length (Flags b) then False
      else list_all (\<lambda>i. Flags a ! i = Flags b ! i) [0..<length (Flags a)])"

definition describeInterfaceChange :: "Interface \<Rightarrow> Interface \<Rightarrow> string list" where
  "describeInterfaceChange bef aft =
     (let changes = [];
          changes = (if MTU bef \<noteq> MTU aft
                     then changes @ [''MTU '' @ Sprintf_d (MTU bef) @ arrow @ Sprintf_d (MTU aft)]
                     else changes);
          changes = (if HardwareAddr bef \<noteq> HardwareAddr aft
                     then changes @ [''HW '' @ HardwareAddr bef @ arrow @ HardwareAddr aft]
                     else changes);
          changes = (if \<not> equalStrings (Flags bef) (Flags aft)
                     then changes @ [''flags ['' @ Join (Flags bef) '','' @ '']'' @ arrow
                                      @ ''['' @ Join (Flags aft) '','' @ '']'']
                     else changes);
          changes = (if length changes = 0
                     then changes @ [''no visible field differences'']
                     else changes)
      in changes)"

text \<open>
  The first loop of \<open>diffInterfaces\<close>, over the entries of \<open>curr\<close> in visiting order \<open>cs\<close>;
  the second, over the entries of \<open>prev\<close> in visiting order \<open>ps\<close>.
\<close>

fun diff_curr_loop ::
  "(string \<rightharpoonup> Interface) \<Rightarrow> (string \<times> Interface) list
     \<Rightarrow> Interface list \<times> interfaceChange list \<Rightarrow> Interface list \<times> interfaceChange list" where
  "diff_curr_loop prev [] (added, updated) = (added, updated)"
| "diff_curr_loop prev ((name, iface) # rest) (added, updated) =
     (case prev name of
        None \<Rightarrow> diff_curr_loop prev rest (added @ [iface], updated)
      | Some p \<Rightarrow>
          if \<not> sameInterface p iface
          then diff_curr_loop prev rest
                 (added, updated @ [\<lparr>change_Name = name, Before = p, After = iface\<rparr>])
          else diff_curr_loop prev rest (added, updated))"

fun diff_prev_loop ::
  "(string \<rightharpoonup> Interface) \<Rightarrow> (string \<times> Interface) list \<Rightarrow> Interface list \<Rightarrow> Interface list" where
  "diff_prev_loop cur [] removed = removed"
| "diff_prev_loop cur ((name, iface) # rest) removed =
     (case cur name of
        None \<Rightarrow> diff_prev_loop cur rest (removed @ [iface])
      | Some _ \<Rightarrow> diff_prev_loop cur rest removed)"

text \<open>
  \<open>sort.Slice\<close> is not stable. The lists it sorts here were built in an arbitrary visiting
  order, so the stable \<^const>\<open>sort_key\<close> over every visiting order produces the same set of
  possible results.
\<close>

definition diffInterfaces ::
  "(string \<times> Interface) list \<Rightarrow> (string \<times> Interface) list
     \<Rightarrow> (string \<rightharpoonup> Interface) \<Rightarrow> (string \<rightharpoonup> Interface)
     \<Rightarrow> Interface list \<times> Interface list \<times> interfaceChange list" where
  "diffInterfaces ps cs prev cur =
     (let (added, updated) = diff_curr_loop prev cs ([], []);
          removed = diff_prev_loop cur ps []
      in (sort_key Name added, sort_key Name removed, sort_key change_Name updated))"

section \<open>Diff engine: address sets (watcher.go)\<close>

text \<open>The loops \<open>for _, val := range old { oldSet[val] = struct{}{} }\<close>.\<close>

definition string_set :: "string list \<Rightarrow> (string \<rightharpoonup> unit)" where
  "string_set vals = fold (\<lambda>val m. m(val \<mapsto> ())) vals Map.empty"

text \<open>
  \<open>diffStringSets\<close> ranges once over \<open>newSet\<close> and once over \<open>oldSet\<close>; \<open>newOrder\<close> and
  \<open>oldOrder\<close> are the visiting orders of the two loops.
\<close>

definition diffStringSets ::
  "string list \<Rightarrow> string list \<Rightarrow> string list \<Rightarrow> string list \<Rightarrow> string list \<times> string list" where
  "diffStringSets newOrder oldOrder old new =
     (let oldSet = string_set old;
          newSet = string_set new;
          added = fold (\<lambda>val added. if oldSet val = None then added @ [val] else added)
                    newOrder [];
          removed = fold (\<lambda>val removed. if newSet val = None then removed @ [val] else removed)
                      oldOrder []
      in (sort added, sort removed))"

text \<open>
  The visiting orders of one run of \<open>diffAddresses\<close>: over \<open>prev\<close>, over \<open>curr\<close>, over \<open>seen\<close>,
  and, for the call of \<open>diffStringSets\<close> made for each name, over its \<open>newSet\<close> and \<open>oldSet\<close>.
  \<open>seen_names\<close> is the map \<open>seen\<close> that the first two loops build, and \<open>over_seen\<close> the order
  in which the third loop visits it (see \<open>valid_addr_ranges\<close>).
\<close>

record addr_ranges =
  over_prev :: "string list"
  over_cur :: "string list"
  over_seen :: "string list"
  over_sets :: "string \<Rightarrow> string list \<times> string list"

definition seen_names :: "string list \<Rightarrow> string list \<Rightarrow> (string \<rightharpoonup> unit)" where
  "seen_names prevOrder curOrder =
     (let seen = Map.empty;
          seen = fold (\<lambda>name seen. seen(name \<mapsto> ())) prevOrder seen;
          seen = fold (\<lambda>name seen. seen(name \<mapsto> ())) curOrder seen
      in seen)"

definition diffAddresses ::
  "addr_ranges \<Rightarrow> (string \<rightharpoonup> string list) \<Rightarrow> (string \<rightharpoonup> string list) \<Rightarrow> addressChange list" where
  "diffAddresses r prev cur =
     (let names = fold (\<lambda>name names. names @ [name]) (over_seen r) [];
          names = sort names
      in fold (\<lambda>name changes.
                 let (added, removed) =
                       diffStringSets (fst (over_sets r name)) (snd (over_sets r name))
                         (index_or_nil prev name) (index_or_nil cur name)
                 in if length added = 0 \<and> length removed = 0 then changes
                    else changes @ [\<lparr>addr_Name = name, Added = added, Removed = removed\<rparr>])
              names [])"

text \<open>Every visiting order in \<open>r\<close> is one of the map it ranges over.\<close>

definition valid_addr_ranges ::
  "addr_ranges \<Rightarrow> (string \<rightharpoonup> string list) \<Rightarrow> (string \<rightharpoonup> string list) \<Rightarrow> bool" where
  "valid_addr_ranges r prev cur =
     (range_keys prev (over_prev r) \<and> range_keys cur (over_cur r)
      \<and> range_keys (seen_names (over_prev r) (over_cur r)) (over_seen r)
      \<and> (\<forall>name. range_keys (string_set (index_or_nil cur name)) (fst (over_sets r name))
                \<and> range_keys (string_set (index_or_nil prev name)) (snd (over_sets r name))))"

text \<open>
  Two mappings that differ only by the order of the elements inside their address lists.
\<close>

definition permuted_lists :: "(string \<rightharpoonup> string list) \<Rightarrow> (string \<rightharpoonup> string list) \<Rightarrow> bool" where
  "permuted_lists m m' = (\<forall>name. rel_option (\<lambda>xs ys. mset xs = mset ys) (m name) (m' name))"


section \<open>Errors\<close>

text \<open>
  Go error values. \<open>ErrorNew msg\<close> is \<open>errors.New(msg)\<close>, and also any error value a
  provider, the netlink library or the context returns; the other constructors are the
  \<open>fmt.Errorf("...: %w", ...)\<close> wrappers of net\_executor.go, with the arguments they format.
\<close>

datatype error =
    ErrorNew string
  | LookupInterface string error
  | ParseAddress string error
  | ListAddresses int error
  | AddAddress string error
  | RemoveAddress string error

text \<open>
  The classification of the specification: a ValidationError is a missing interface name,
  an empty address list, or an address string that fails to parse.
\<close>

fun is_ValidationError :: "error \<Rightarrow> bool" where
  "is_ValidationError (ErrorNew msg) =
     (msg = ''interface is required'' \<or> msg = ''at least one address is required'')"
| "is_ValidationError (ParseAddress addrStr err) = True"
| "is_ValidationError _ = False"

fun is_LookupError :: "error \<Rightarrow> bool" where
  "is_LookupError (LookupInterface name err) = True"
| "is_LookupError _ = False"


section \<open>Watcher: providers and snapshot collection (lister.go, viewer.go, watcher.go)\<close>

text \<open>
  The providers read the operating system, whose state \<^typ>\<open>'s\<close> they may change. The
  world of a watcher run holds that state, the calls made to the two providers so far, and
  what has been written to the \<open>Writer\<close> (one entry per \<open>Fprintf\<close>/\<open>Fprintln\<close>).
\<close>

datatype provider_call = CallListInterfaces | CallInterfaceAddresses string

record 's world =
  os :: 's
  provider_calls :: "provider_call list"
  written :: "string list"

record 's Lister =
  lister_provider :: "('s \<Rightarrow> (error + Interface list) \<times> 's) option"

record 's Viewer =
  viewer_provider :: "(string \<Rightarrow> 's \<Rightarrow> (error + string list) \<times> 's) option"

definition Lister_List :: "'s Lister \<Rightarrow> 's world \<Rightarrow> (error + Interface list) \<times> 's world" where
  "Lister_List l st =
     (case lister_provider l of
        None \<Rightarrow> (Inl (ErrorNew ''interfaces provider is not configured''), st)
      | Some ListInterfaces \<Rightarrow>
          (let (res, os') = ListInterfaces (os st);
               st' = st\<lparr>os := os', provider_calls := provider_calls st @ [CallListInterfaces]\<rparr>
           in case res of
                Inl err \<Rightarrow> (Inl err, st')
              | Inr interfaces \<Rightarrow> (Inr (sort_key Name interfaces), st')))"

definition Viewer_View ::
  "'s Viewer \<Rightarrow> string \<Rightarrow> 's world \<Rightarrow> (error + string list) \<times> 's world" where
  "Viewer_View v name st =
     (case viewer_provider v of
        None \<Rightarrow> (Inl (ErrorNew ''address provider is not configured''), st)
      | Some InterfaceAddresses \<Rightarrow>
          if name = [] then (Inl (ErrorNew ''interface name is required''), st)
          else
            (let (res, os') = InterfaceAddresses name (os st);
                 st' = st\<lparr>os := os',
                          provider_calls := provider_calls st @ [CallInterfaceAddresses name]\<rparr>
             in case res of
                  Inl err \<Rightarrow> (Inl err, st')
                | Inr addrs \<Rightarrow> (Inr (sort addrs), st')))"

text \<open>
  \<open>Interval\<close> is a \<open>time.Duration\<close> (nanoseconds). \<open>Writer\<close> is \<open>None\<close> for a nil
  \<open>io.Writer\<close>. \<open>timestamp\<close> is the text \<open>w.timestamp()\<close> renders from the clock (\<open>w.Now\<close>
  or \<open>time.Now\<close>), read from the state of the system; \<open>Duration_String\<close> is
  \<open>time.Duration.String\<close>, which \<open>%s\<close> applies to the interval.
\<close>

record 's Watcher =
  Lister :: "'s Lister"
  Viewer :: "'s Viewer"
  Interval :: int
  w_Interface :: string
  Writer :: "unit option"
  timestamp :: "'s \<Rightarrow> string"
  Duration_String :: "int \<Rightarrow> string"

record snapshot =
  interfaces :: "string \<rightharpoonup> Interface"
  addresses :: "string \<rightharpoonup> string list"

fun collect_loop ::
  "'s Watcher \<Rightarrow> Interface list \<Rightarrow> snapshot \<Rightarrow> 's world \<Rightarrow> (error + snapshot) \<times> 's world" where
  "collect_loop w [] snap st = (Inr snap, st)"
| "collect_loop w (iface # rest) snap st =
     (if w_Interface w \<noteq> [] \<and> Name iface \<noteq> w_Interface w then collect_loop w rest snap st
      else
        (let snap = snap\<lparr>interfaces := (interfaces snap)(Name iface \<mapsto> iface)\<rparr>
         in case Viewer_View (Viewer w) (Name iface) st of
              (Inl err, st') \<Rightarrow> (Inl err, st')
            | (Inr addrs, st') \<Rightarrow>
                collect_loop w rest
                  (snap\<lparr>addresses := (addresses snap)(Name iface \<mapsto> sort addrs)\<rparr>) st'))"

definition collect :: "'s Watcher \<Rightarrow> 's world \<Rightarrow> (error + snapshot) \<times> 's world" where
  "collect w st =
     (case Lister_List (Lister w) st of
        (Inl err, st') \<Rightarrow> (Inl err, st')
      | (Inr list, st') \<Rightarrow>
          (case collect_loop w list \<lparr>interfaces = Map.empty, addresses = Map.empty\<rparr> st' of
             (Inl err, st'') \<Rightarrow> (Inl err, st'')
           | (Inr snap, st'') \<Rightarrow>
               (let snap =
                      (if w_Interface w \<noteq> [] then
                         (if interfaces snap (w_Interface w) = None
                          then snap\<lparr>addresses := (addresses snap)(w_Interface w \<mapsto> [])\<rparr>
                          else snap)
                       else snap)
                in (Inr snap, st''))))"


section \<open>Watcher: reporting and the polling loop (watcher.go)\<close>

definition Fprint :: "string \<Rightarrow> 's world \<Rightarrow> 's world" where
  "Fprint line st = st\<lparr>written := written st @ [line]\<rparr>"

definition newline :: string where
  "newline = [char_of (10 :: nat)]"

text \<open>
  \<open>printInitial\<close> ranges over \<open>snap.interfaces\<close> to collect the names; \<open>order\<close> is the
  visiting order, and its length is \<open>len(snap.interfaces)\<close>. Reading a missing key of
  \<open>snap.interfaces\<close> gives the zero \<open>Interface\<close>.
\<close>

definition zero_Interface :: Interface where
  "zero_Interface = \<lparr>Name = [], HardwareAddr = [], MTU = 0, Flags = []\<rparr>"

definition printInitial :: "'s Watcher \<Rightarrow> string list \<Rightarrow> snapshot \<Rightarrow> 's world \<Rightarrow> 's world" where
  "printInitial w order snap st =
     (let st = Fprint (''['' @ timestamp w (os st) @ ''] monitoring started (interval ''
                        @ Duration_String w (Interval w) @ '')'' @ newline) st;
          st = (if w_Interface w \<noteq> []
                then Fprint ('' - filter: '' @ w_Interface w @ newline) st else st)
      in if length order = 0 then
           (if w_Interface w = [] then Fprint (''No interfaces detected yet'' @ newline) st
            else Fprint (''Waiting for '' @ w_Interface w @ '' to appear...'' @ newline) st)
         else
           (let names = fold (\<lambda>name names. names @ [name]) order [];
                names = sort names
            in fold (\<lambda>name st.
                     (let iface = (case interfaces snap name of
                                     None \<Rightarrow> zero_Interface | Some iface \<Rightarrow> iface);
                          st = Fprint ('' - '' @ Name iface @ '' (MTU='' @ Sprintf_d (MTU iface)
                                        @ '', HW='' @ HardwareAddr iface @ '')'' @ newline) st;
                          addrs = index_or_nil (addresses snap) name
                      in if length addrs = 0 then Fprint (''   addresses: none'' @ newline) st
                         else Fprint (''   addresses: '' @ Join addrs '', '' @ newline) st))
               names st))"

text \<open>The visiting orders of one run of \<open>reportChanges\<close>.\<close>

record report_ranges =
  iface_prev :: "(string \<times> Interface) list"
  iface_cur :: "(string \<times> Interface) list"
  addr_orders :: addr_ranges

definition reportChanges ::
  "'s Watcher \<Rightarrow> report_ranges \<Rightarrow> snapshot \<Rightarrow> snapshot \<Rightarrow> 's world \<Rightarrow> 's world" where
  "reportChanges w r prev cur st =
     (let (added, removed, updated) =
            diffInterfaces (iface_prev r) (iface_cur r) (interfaces prev) (interfaces cur);
          st = fold (\<lambda>iface st.
                 Fprint (''['' @ timestamp w (os st) @ ''] interface '' @ Name iface
                          @ '' added (MTU='' @ Sprintf_d (MTU iface) @ '', HW=''
                          @ HardwareAddr iface @ '')'' @ newline) st) added st;
          st = fold (\<lambda>iface st.
                 Fprint (''['' @ timestamp w (os st) @ ''] interface '' @ Name iface
                          @ '' removed'' @ newline) st) removed st;
          st = fold (\<lambda>change st.
                 (let diffs = describeInterfaceChange (Before change) (After change)
                  in Fprint (''['' @ timestamp w (os st) @ ''] interface '' @ change_Name change
                              @ '' updated: '' @ Join diffs '', '' @ newline) st)) updated st
      in fold (\<lambda>change st.
           (let st = (if length (Added change) > 0
                      then Fprint (''['' @ timestamp w (os st) @ ''] '' @ addr_Name change
                                    @ '' addresses added: '' @ Join (Added change) '', ''
                                    @ newline) st
                      else st)
            in if length (Removed change) > 0
               then Fprint (''['' @ timestamp w (os st) @ ''] '' @ addr_Name change
                             @ '' addresses removed: '' @ Join (Removed change) '', ''
                             @ newline) st
               else st))
           (diffAddresses (addr_orders r) (addresses prev) (addresses cur)) st)"

text \<open>
  Each iteration of the loop of \<open>Run\<close> blocks in \<open>select\<close> until the context is done or the
  ticker fires. The run is driven by the list of the events that fire, in order: \<open>Done err\<close>
  with the value of \<open>ctx.Err()\<close>, or \<open>Tick r\<close> with the visiting orders \<open>reportChanges\<close>
  uses at that tick. When the events are exhausted the loop is still blocked in \<open>select\<close>:
  \<open>Run\<close> has not returned.
\<close>

datatype event = Done error | Tick report_ranges

datatype outcome = Returned error | Blocked

fun run_loop ::
  "'s Watcher \<Rightarrow> snapshot \<Rightarrow> event list \<Rightarrow> 's world \<Rightarrow> outcome \<times> 's world" where
  "run_loop w current [] st = (Blocked, st)"
| "run_loop w current (Done err # events) st = (Returned err, st)"
| "run_loop w current (Tick r # events) st =
     (case collect w st of
        (Inl err, st') \<Rightarrow> (Returned err, st')
      | (Inr next, st') \<Rightarrow> run_loop w next events (reportChanges w r current next st'))"

definition Run ::
  "'s Watcher \<Rightarrow> string list \<Rightarrow> event list \<Rightarrow> 's world \<Rightarrow> outcome \<times> 's world" where
  "Run w order events st =
     (if Writer w = None then (Returned (ErrorNew ''writer is required''), st)
      else if Interval w \<le> 0 then (Returned (ErrorNew ''interval must be positive''), st)
      else
        (case collect w st of
           (Inl err, st') \<Rightarrow> (Returned err, st')
         | (Inr current, st') \<Rightarrow> run_loop w current events (printInitial w order current st')))"


section \<open>Reconciliation executor (net\_executor.go) and Applier\<close>

record Configuration =
  cfg_Interface :: string
  Addresses :: "string list"

text \<open>
  The part of the netlink library the executor uses, over the library's address type
  \<^typ>\<open>'a\<close> (\<open>netlink.Addr\<close>): \<open>netlink.ParseAddr\<close>, \<open>Addr.String()\<close> (the key of the desired
  map), \<open>Addr.IPNet.String()\<close> (the key of the current map) and whether \<open>Addr.IP.To4()\<close> is
  non-nil. The library is not part of the repository; the executor is modelled, and its
  properties are proved, for every such library. The two key functions are kept apart
  because the library's differ: \<open>Addr.String()\<close> renders the label of an address after its
  prefix, \<open>Addr.IPNet.String()\<close> the prefix alone. The two family constants have the values
  of \<open>AF_INET\<close> and \<open>AF_INET6\<close>.
\<close>

record 'a netlink =
  ParseAddr :: "string \<Rightarrow> error + 'a"
  Addr_String :: "'a \<Rightarrow> string"
  IPNet_String :: "'a \<Rightarrow> string"
  IP_To4 :: "'a \<Rightarrow> bool"

definition FAMILY_V4 :: int where
  "FAMILY_V4 = 2"

definition FAMILY_V6 :: int where
  "FAMILY_V6 = 10"

text \<open>
  \<open>NetlinkProvider\<close>, over link handles \<^typ>\<open>'l\<close> and a provider state \<^typ>\<open>'s\<close> (the kernel's
  address tables, or the fields of a test double) that every method may read and change.
\<close>

record ('l, 'a, 's) NetlinkProvider =
  LinkByName :: "string \<Rightarrow> 's \<Rightarrow> (error + 'l) \<times> 's"
  AddrList :: "'l \<Rightarrow> int \<Rightarrow> 's \<Rightarrow> (error + 'a list) \<times> 's"
  AddrAdd :: "'l \<Rightarrow> 'a \<Rightarrow> 's \<Rightarrow> error option \<times> 's"
  AddrDel :: "'l \<Rightarrow> 'a \<Rightarrow> 's \<Rightarrow> error option \<times> 's"

record ('l, 'a, 's) NetlinkExecutor =
  Provider :: "('l, 'a, 's) NetlinkProvider option"

text \<open>
  The state an \<open>Apply\<close> runs in: the provider state and the provider methods invoked so
  far, in order. Each \<open>do_\<close> function is one method invocation: it runs the method and
  appends the call to the record.
\<close>

datatype ('l, 'a) call =
    CallLinkByName string
  | CallAddrList 'l int
  | CallAddrAdd 'l 'a
  | CallAddrDel 'l 'a

record ('l, 'a, 's) kernel =
  kstate :: 's
  calls :: "('l, 'a) call list"

definition do_LinkByName ::
  "('l, 'a, 's) NetlinkProvider \<Rightarrow> string \<Rightarrow> ('l, 'a, 's) kernel
     \<Rightarrow> (error + 'l) \<times> ('l, 'a, 's) kernel" where
  "do_LinkByName p name k =
     (let (res, s') = LinkByName p name (kstate k)
      in (res, \<lparr>kstate = s', calls = calls k @ [CallLinkByName name]\<rparr>))"

definition do_AddrList ::
  "('l, 'a, 's) NetlinkProvider \<Rightarrow> 'l \<Rightarrow> int \<Rightarrow> ('l, 'a, 's) kernel
     \<Rightarrow> (error + 'a list) \<times> ('l, 'a, 's) kernel" where
  "do_AddrList p link family k =
     (let (res, s') = AddrList p link family (kstate k)
      in (res, \<lparr>kstate = s', calls = calls k @ [CallAddrList link family]\<rparr>))"

definition do_AddrAdd ::
  "('l, 'a, 's) NetlinkProvider \<Rightarrow> 'l \<Rightarrow> 'a \<Rightarrow> ('l, 'a, 's) kernel
     \<Rightarrow> error option \<times> ('l, 'a, 's) kernel" where
  "do_AddrAdd p link addr k =
     (let (res, s') = AddrAdd p link addr (kstate k)
      in (res, \<lparr>kstate = s', calls = calls k @ [CallAddrAdd link addr]\<rparr>))"

definition do_AddrDel ::
  "('l, 'a, 's) NetlinkProvider \<Rightarrow> 'l \<Rightarrow> 'a \<Rightarrow> ('l, 'a, 's) kernel
     \<Rightarrow> error option \<times> ('l, 'a, 's) kernel" where
  "do_AddrDel p link addr k =
     (let (res, s') = AddrDel p link addr (kstate k)
      in (res, \<lparr>kstate = s', calls = calls k @ [CallAddrDel link addr]\<rparr>))"

definition addrFamily :: "'a netlink \<Rightarrow> 'a \<Rightarrow> int" where
  "addrFamily lib addr = (if IP_To4 lib addr then FAMILY_V4 else FAMILY_V6)"

fun parse_loop ::
  "'a netlink \<Rightarrow> string list \<Rightarrow> (string \<rightharpoonup> 'a) \<times> (int \<rightharpoonup> unit) \<times> int list
     \<Rightarrow> error + (string \<rightharpoonup> 'a) \<times> int list" where
  "parse_loop lib [] (desired, familySet, families) = Inr (desired, families)"
| "parse_loop lib (addrStr # rest) (desired, familySet, families) =
     (case ParseAddr lib addrStr of
        Inl err \<Rightarrow> Inl (ParseAddress addrStr err)
      | Inr addr \<Rightarrow>
          (let desired = desired(Addr_String lib addr \<mapsto> addr);
               fam = addrFamily lib addr
           in if familySet fam = None
              then parse_loop lib rest (desired, familySet(fam \<mapsto> ()), families @ [fam])
              else parse_loop lib rest (desired, familySet, families)))"

definition parseDesiredAddresses ::
  "'a netlink \<Rightarrow> string list \<Rightarrow> error + (string \<rightharpoonup> 'a) \<times> int list" where
  "parseDesiredAddresses lib raw = parse_loop lib raw (Map.empty, Map.empty, [])"

fun collect_current_loop ::
  "'a netlink \<Rightarrow> ('l, 'a, 's) NetlinkProvider \<Rightarrow> 'l \<Rightarrow> int list \<Rightarrow> (string \<rightharpoonup> 'a)
     \<Rightarrow> ('l, 'a, 's) kernel \<Rightarrow> (error + (string \<rightharpoonup> 'a)) \<times> ('l, 'a, 's) kernel" where
  "collect_current_loop lib p link [] current k = (Inr current, k)"
| "collect_current_loop lib p link (family # rest) current k =
     (case do_AddrList p link family k of
        (Inl err, k') \<Rightarrow> (Inl (ListAddresses family err), k')
      | (Inr addrs, k') \<Rightarrow>
          collect_current_loop lib p link rest
            (fold (\<lambda>addrCopy current. current(IPNet_String lib addrCopy \<mapsto> addrCopy))
               addrs current) k')"

definition collectCurrent ::
  "'a netlink \<Rightarrow> ('l, 'a, 's) NetlinkProvider \<Rightarrow> 'l \<Rightarrow> int list
     \<Rightarrow> ('l, 'a, 's) kernel \<Rightarrow> (error + (string \<rightharpoonup> 'a)) \<times> ('l, 'a, 's) kernel" where
  "collectCurrent lib p link families k = collect_current_loop lib p link families Map.empty k"

text \<open>
  The two loops of \<open>Apply\<close>, over the entries of \<open>desired\<close> and of \<open>current\<close> in their
  visiting orders.
\<close>

fun add_loop ::
  "('l, 'a, 's) NetlinkProvider \<Rightarrow> 'l \<Rightarrow> (string \<rightharpoonup> 'a) \<Rightarrow> (string \<times> 'a) list
     \<Rightarrow> ('l, 'a, 's) kernel \<Rightarrow> error option \<times> ('l, 'a, 's) kernel" where
  "add_loop p link current [] k = (None, k)"
| "add_loop p link current ((key, addr) # rest) k =
     (if current key \<noteq> None then add_loop p link current rest k
      else (case do_AddrAdd p link addr k of
              (Some err, k') \<Rightarrow> (Some (AddAddress key err), k')
            | (None, k') \<Rightarrow> add_loop p link current rest k'))"

fun del_loop ::
  "('l, 'a, 's) NetlinkProvider \<Rightarrow> 'l \<Rightarrow> (string \<rightharpoonup> 'a) \<Rightarrow> (string \<times> 'a) list
     \<Rightarrow> ('l, 'a, 's) kernel \<Rightarrow> error option \<times> ('l, 'a, 's) kernel" where
  "del_loop p link desired [] k = (None, k)"
| "del_loop p link desired ((key, addr) # rest) k =
     (if desired key \<noteq> None then del_loop p link desired rest k
      else (case do_AddrDel p link addr k of
              (Some err, k') \<Rightarrow> (Some (RemoveAddress key err), k')
            | (None, k') \<Rightarrow> del_loop p link desired rest k'))"

text \<open>
  \<open>Apply\<close>; \<open>desiredOrder\<close> and \<open>currentOrder\<close> are the visiting orders of its two
  \<open>range\<close> loops.
\<close>

definition Apply ::
  "'a netlink \<Rightarrow> ('l, 'a, 's) NetlinkExecutor \<Rightarrow> (string \<times> 'a) list \<Rightarrow> (string \<times> 'a) list
     \<Rightarrow> Configuration \<Rightarrow> ('l, 'a, 's) kernel \<Rightarrow> error option \<times> ('l, 'a, 's) kernel" where
  "Apply lib n desiredOrder currentOrder cfg k =
     (case Provider n of
        None \<Rightarrow> (Some (ErrorNew ''netlink provider is not configured''), k)
      | Some p \<Rightarrow>
          (case do_LinkByName p (cfg_Interface cfg) k of
             (Inl err, k) \<Rightarrow> (Some (LookupInterface (cfg_Interface cfg) err), k)
           | (Inr link, k) \<Rightarrow>
               (case parseDesiredAddresses lib (Addresses cfg) of
                  Inl err \<Rightarrow> (Some err, k)
                | Inr (desired, families) \<Rightarrow>
                    (case collectCurrent lib p link families k of
                       (Inl err, k) \<Rightarrow> (Some err, k)
                     | (Inr current, k) \<Rightarrow>
                         (case add_loop p link current desiredOrder k of
                            (Some err, k) \<Rightarrow> (Some err, k)
                          | (None, k) \<Rightarrow> del_loop p link desired currentOrder k)))))"

text \<open>
  \<open>Applier.Apply\<close> over an \<open>Executor\<close>; the executor is any function with the signature of
  \<open>Apply\<close> (\<open>NetlinkExecutor.Apply\<close>, \<open>ConsoleExecutor.Apply\<close>), and \<open>None\<close> is the nil
  interface value.
\<close>

record 'k Applier =
  executor :: "(Configuration \<Rightarrow> 'k \<Rightarrow> error option \<times> 'k) option"

definition Applier_Apply :: "'k Applier \<Rightarrow> Configuration \<Rightarrow> 'k \<Rightarrow> error option \<times> 'k" where
  "Applier_Apply a cfg k =
     (case executor a of
        None \<Rightarrow> (Some (ErrorNew ''configuration executor is not configured''), k)
      | Some executor_Apply \<Rightarrow>
          if cfg_Interface cfg = [] then (Some (ErrorNew ''interface is required''), k)
          else if length (Addresses cfg) = 0
          then (Some (ErrorNew ''at least one address is required''), k)
          else executor_Apply cfg k)"

section \<open>Auxiliary definitions\<close>

text \<open>
  The entries of \<open>updated\<close> before sorting: the visited entries of \<open>curr\<close> that pass the
  test of the first loop, and the change record the loop appends for each.
\<close>

definition is_update :: "(string \<rightharpoonup> Interface) \<Rightarrow> string \<times> Interface \<Rightarrow> bool" where
  "is_update prev e = (case prev (fst e) of None \<Rightarrow> False | Some p \<Rightarrow> \<not> sameInterface p (snd e))"

definition mk_change :: "(string \<rightharpoonup> Interface) \<Rightarrow> string \<times> Interface \<Rightarrow> interfaceChange" where
  "mk_change prev e = \<lparr>change_Name = fst e, Before = the (prev (fst e)), After = snd e\<rparr>"

text \<open>
  The set of addresses of a name, and the entry \<open>diffAddresses\<close> reports for it.
\<close>

definition addr_set :: "(string \<rightharpoonup> string list) \<Rightarrow> string \<Rightarrow> string set" where
  "addr_set m name = set (index_or_nil m name)"

definition change_for ::
  "(string \<rightharpoonup> string list) \<Rightarrow> (string \<rightharpoonup> string list) \<Rightarrow> string \<Rightarrow> addressChange" where
  "change_for prev cur name =
     \<lparr>addr_Name = name,
      Added = sorted_list_of_set (addr_set cur name - addr_set prev name),
      Removed = sorted_list_of_set (addr_set prev name - addr_set cur name)\<rparr>"

text \<open>
  A valid choice of visiting orders for \<open>diffAddresses\<close>: the given orders over the maps,
  and each address list without its repetitions for the sets built from it.
\<close>

definition ranges_for ::
  "string list \<Rightarrow> string list \<Rightarrow> string list
     \<Rightarrow> (string \<rightharpoonup> string list) \<Rightarrow> (string \<rightharpoonup> string list) \<Rightarrow> addr_ranges" where
  "ranges_for po co so prev cur =
     \<lparr>over_prev = po, over_cur = co, over_seen = so,
      over_sets = (\<lambda>name. (remdups (index_or_nil cur name), remdups (index_or_nil prev name)))\<rparr>"


text \<open>
  The addresses that parse, in order; the entries the two loops of \<open>Apply\<close> act on (those
  that pass the \<open>continue\<close> test); the \<open>AddrList\<close> calls among the calls; and the calls
  issued between two states.
\<close>

definition parsed_addrs :: "'a netlink \<Rightarrow> string list \<Rightarrow> 'a list" where
  "parsed_addrs lib raw =
     concat (map (\<lambda>addrStr. case ParseAddr lib addrStr of Inl err \<Rightarrow> [] | Inr addr \<Rightarrow> [addr]) raw)"

definition adds_of :: "(string \<rightharpoonup> 'a) \<Rightarrow> (string \<times> 'a) list \<Rightarrow> (string \<times> 'a) list" where
  "adds_of current desiredOrder = filter (\<lambda>e. current (fst e) = None) desiredOrder"

definition dels_of :: "(string \<rightharpoonup> 'a) \<Rightarrow> (string \<times> 'a) list \<Rightarrow> (string \<times> 'a) list" where
  "dels_of desired currentOrder = filter (\<lambda>e. desired (fst e) = None) currentOrder"

fun is_AddrList :: "('l, 'a) call \<Rightarrow> bool" where
  "is_AddrList (CallAddrList link family) = True"
| "is_AddrList _ = False"

definition issued :: "('l, 'a, 's) kernel \<Rightarrow> ('l, 'a, 's) kernel \<Rightarrow> ('l, 'a) call list" where
  "issued k k' = drop (length (calls k)) (calls k')"


section \<open>Example inputs\<close>

text \<open>The snapshots of \<open>TestDiffInterfacesDetectsChanges\<close> (watcher_test.go).\<close>

definition demo_eth0 :: Interface where
  "demo_eth0 = \<lparr>Name = ''eth0'', HardwareAddr = ''aa:bb'', MTU = 1500, Flags = []\<rparr>"

definition demo_eth0' :: Interface where
  "demo_eth0' = \<lparr>Name = ''eth0'', HardwareAddr = ''aa:bb'', MTU = 1400, Flags = []\<rparr>"

definition demo_eth1 :: Interface where
  "demo_eth1 = \<lparr>Name = ''eth1'', HardwareAddr = ''cc:dd'', MTU = 1500, Flags = [''up'']\<rparr>"

definition demo_eth2 :: Interface where
  "demo_eth2 = \<lparr>Name = ''eth2'', HardwareAddr = ''ee:ff'', MTU = 1500, Flags = []\<rparr>"

definition demo_prev :: "(string \<times> Interface) list" where
  "demo_prev = [(''eth1'', demo_eth1), (''eth0'', demo_eth0)]"

definition demo_cur :: "(string \<times> Interface) list" where
  "demo_cur = [(''eth2'', demo_eth2), (''eth0'', demo_eth0')]"

text \<open>
  The mappings of \<open>TestDiffAddressesDetectsChanges\<close> (watcher_test.go), once as written and
  once with the lists of \<open>eth0\<close> reversed, with two different choices of visiting orders.
\<close>

definition demo_addrs_prev :: "string \<rightharpoonup> string list" where
  "demo_addrs_prev = [''eth0'' \<mapsto> [''192.0.2.1/24'', ''2001:db8::1/64''], ''eth1'' \<mapsto> [''192.0.2.2/24'']]"

definition demo_addrs_prev' :: "string \<rightharpoonup> string list" where
  "demo_addrs_prev' = [''eth0'' \<mapsto> [''2001:db8::1/64'', ''192.0.2.1/24''], ''eth1'' \<mapsto> [''192.0.2.2/24'']]"

definition demo_addrs_cur :: "string \<rightharpoonup> string list" where
  "demo_addrs_cur = [''eth0'' \<mapsto> [''192.0.2.1/24'', ''198.51.100.1/24''], ''eth2'' \<mapsto> [''203.0.113.5/24'']]"

definition demo_addrs_cur' :: "string \<rightharpoonup> string list" where
  "demo_addrs_cur' = [''eth0'' \<mapsto> [''198.51.100.1/24'', ''192.0.2.1/24''], ''eth2'' \<mapsto> [''203.0.113.5/24'']]"

definition demo_r :: addr_ranges where
  "demo_r = ranges_for [''eth1'', ''eth0''] [''eth0'', ''eth2''] [''eth2'', ''eth0'', ''eth1''] demo_addrs_prev demo_addrs_cur"

definition demo_r' :: addr_ranges where
  "demo_r' = ranges_for [''eth0'', ''eth1''] [''eth2'', ''eth0''] [''eth1'', ''eth2'', ''eth0''] demo_addrs_prev' demo_addrs_cur'"

text \<open>
  A watcher filtered on \<open>eth0\<close>, over providers that list only \<open>lo\<close> in state 0 and
  \<open>lo\<close> and \<open>eth0\<close> in any other state; the two snapshots it collects there.
\<close>

definition demo_lo :: Interface where
  "demo_lo = \<lparr>Name = ''lo'', HardwareAddr = [], MTU = 65536, Flags = [''up'', ''loopback'']\<rparr>"

definition demo_ListInterfaces :: "nat \<Rightarrow> (error + Interface list) \<times> nat" where
  "demo_ListInterfaces s = (Inr (if s = 0 then [demo_lo] else [demo_lo, demo_eth0]), s)"

definition demo_InterfaceAddresses :: "string \<Rightarrow> nat \<Rightarrow> (error + string list) \<times> nat" where
  "demo_InterfaceAddresses name s =
     (Inr (if name = ''eth0'' then [''192.0.2.1/24''] else [''127.0.0.1/8'']), s)"

definition demo_watcher :: "nat Watcher" where
  "demo_watcher =
     \<lparr>Lister = \<lparr>lister_provider = Some demo_ListInterfaces\<rparr>,
      Viewer = \<lparr>viewer_provider = Some demo_InterfaceAddresses\<rparr>,
      Interval = 1000000, w_Interface = ''eth0'', Writer = Some (),
      timestamp = (\<lambda>_. ''2024-01-01T00:00:00Z''), Duration_String = (\<lambda>_. ''1ms'')\<rparr>"

definition demo_world :: "nat \<Rightarrow> nat world" where
  "demo_world s = \<lparr>os = s, provider_calls = [], written = []\<rparr>"




text \<open>
  \<open>demo_lib\<close> stands in for the netlink library on the strings of the
  examples: a string parses iff it contains a slash, is its own canonical form, and is an
  IPv4 address iff it contains no colon. \<open>demo_provider\<close> keeps the addresses of the one
  link \<open>eth0\<close> in a list; \<open>demo_add_fails\<close> and \<open>demo_list_fails\<close> are the failing test
  doubles of net\_executor\_test.go. \<open>demo_cfg\<close> with the kernel holding \<open>10.0.0.5/24\<close> and
  \<open>10.0.0.10/24\<close> is the reconciliation scenario of the specification.
\<close>

definition demo_lib :: "(string \<times> bool) netlink" where
  "demo_lib =
     \<lparr>ParseAddr = (\<lambda>addrStr. if CHR ''/'' \<in> set addrStr
                                then Inr (addrStr, CHR '':'' \<notin> set addrStr)
                                else Inl (ErrorNew (''invalid CIDR address: '' @ addrStr))),
      Addr_String = fst, IPNet_String = fst, IP_To4 = snd\<rparr>"

definition demo_provider :: "(unit, string \<times> bool, (string \<times> bool) list) NetlinkProvider" where
  "demo_provider =
     \<lparr>LinkByName = (\<lambda>name s. (if name = ''eth0'' then Inr () else Inl (ErrorNew ''Link not found''), s)),
      AddrList = (\<lambda>link family s. (Inr (filter (\<lambda>addr. addrFamily demo_lib addr = family) s), s)),
      AddrAdd = (\<lambda>link addr s. (None, s @ [addr])),
      AddrDel = (\<lambda>link addr s. (None, removeAll addr s))\<rparr>"


definition demo_list_fails :: "(unit, string \<times> bool, (string \<times> bool) list) NetlinkProvider" where
  "demo_list_fails = demo_provider\<lparr>AddrList := (\<lambda>link family s. (Inl (ErrorNew ''boom''), s))\<rparr>"

definition demo_kernel ::
  "(string \<times> bool) list \<Rightarrow> (unit, string \<times> bool, (string \<times> bool) list) kernel" where
  "demo_kernel addrs = \<lparr>kstate = addrs, calls = []\<rparr>"

definition demo_a5 :: "string \<times> bool" where "demo_a5 = (''10.0.0.5/24'', True)"

definition demo_a10 :: "string \<times> bool" where "demo_a10 = (''10.0.0.10/24'', True)"

definition demo_a6 :: "string \<times> bool" where "demo_a6 = (''2001:db8::10/64'', False)"

definition demo_cfg :: Configuration where
  "demo_cfg = \<lparr>cfg_Interface = ''eth0'', Addresses = [''10.0.0.10/24'', ''2001:db8::10/64'']\<rparr>"

definition demo_desired :: "string \<rightharpoonup> string \<times> bool" where
  "demo_desired = [''10.0.0.10/24'' \<mapsto> demo_a10, ''2001:db8::10/64'' \<mapsto> demo_a6]"

definition demo_current :: "string \<rightharpoonup> string \<times> bool" where
  "demo_current = [''10.0.0.5/24'' \<mapsto> demo_a5, ''10.0.0.10/24'' \<mapsto> demo_a10]"

definition demo_desiredOrder :: "(string \<times> string \<times> bool) list" where
  "demo_desiredOrder = [(''2001:db8::10/64'', demo_a6), (''10.0.0.10/24'', demo_a10)]"

definition demo_currentOrder :: "(string \<times> string \<times> bool) list" where
  "demo_currentOrder = [(''10.0.0.10/24'', demo_a10), (''10.0.0.5/24'', demo_a5)]"

definition demo_after :: "(unit, string \<times> bool, (string \<times> bool) list) kernel" where
  "demo_after =
     \<lparr>kstate = [demo_a10, demo_a6],
      calls = [CallLinkByName ''eth0'', CallAddrList () FAMILY_V4, CallAddrList () FAMILY_V6,
               CallAddrAdd () demo_a6, CallAddrDel () demo_a5]\<rparr>"

definition demo_cfg_v4 :: Configuration where
  "demo_cfg_v4 = \<lparr>cfg_Interface = ''eth0'', Addresses = [''10.0.0.10/24'']\<rparr>"

definition demo_cfg_bad :: Configuration where
  "demo_cfg_bad = \<lparr>cfg_Interface = ''eth0'', Addresses = [''10.0.0.10/24'', ''not-an-ip'', ''10.0.0.11'']\<rparr>"

definition demo_cfg_nolink :: Configuration where
  "demo_cfg_nolink = \<lparr>cfg_Interface = ''eth9'', Addresses = [''not-an-ip'']\<rparr>"

definition demo_desired_v4 :: "string \<rightharpoonup> string \<times> bool" where
  "demo_desired_v4 = [''10.0.0.10/24'' \<mapsto> demo_a10]"

definition demo_after_v4 :: "(unit, string \<times> bool, (string \<times> bool) list) kernel" where
  "demo_after_v4 =
     \<lparr>kstate = [demo_a6, demo_a10],
      calls = [CallLinkByName ''eth0'', CallAddrList () FAMILY_V4, CallAddrAdd () demo_a10,
               CallAddrDel () demo_a5]\<rparr>"

text \<open>
  \<open>demo_label_lib\<close> follows the library one step further than \<open>demo_lib\<close>:
  \<open>netlink.ParseAddr\<close> also accepts an entry of the form \<open>ip/mask label\<close>, \<open>Addr.String()\<close>
  renders the label after the prefix, and \<open>Addr.IPNet.String()\<close> renders the prefix alone.
  An address is kept as the text of its \<open>Addr.String()\<close> together with whether it is IPv4;
  on an entry without a label the two libraries agree. \<open>demo_labelled\<close> is the address
  \<open>10.0.0.1/24\<close> with the label \<open>eth0\<close>. \<open>demo_list_all\<close> is a test double whose \<open>AddrList\<close>
  ignores the family it is asked for and returns every address of the link.
\<close>

definition demo_label_lib :: "(string \<times> bool) netlink" where
  "demo_label_lib =
     \<lparr>ParseAddr = (\<lambda>addrStr. let s = takeWhile (\<lambda>c. c \<noteq> CHR '' '') addrStr in
                                if CHR ''/'' \<in> set s
                                then Inr (addrStr, CHR '':'' \<notin> set s)
                                else Inl (ErrorNew (''invalid CIDR address: '' @ s))),
      Addr_String = fst,
      IPNet_String = (\<lambda>addr. takeWhile (\<lambda>c. c \<noteq> CHR '' '') (fst addr)),
      IP_To4 = snd\<rparr>"

definition demo_labelled :: "string \<times> bool" where
  "demo_labelled = (''10.0.0.1/24 eth0'', True)"

definition demo_cfg_label :: Configuration where
  "demo_cfg_label = \<lparr>cfg_Interface = ''eth0'', Addresses = [''10.0.0.1/24 eth0'']\<rparr>"

definition demo_list_all :: "(unit, string \<times> bool, (string \<times> bool) list) NetlinkProvider" where
  "demo_list_all = demo_provider\<lparr>AddrList := (\<lambda>link family s. (Inr s, s))\<rparr>"


section \<open>Properties of the interface diff\<close>

lemma equalStrings_iff: "equalStrings a b \<longleftrightarrow> a = b"
  unfolding equalStrings_def list_all_iff by (auto intro: nth_equalityI)

lemma sameInterface_iff:
  "sameInterface a b \<longleftrightarrow>
     Name a = Name b \<and> HardwareAddr a = HardwareAddr b \<and> MTU a = MTU b \<and> Flags a = Flags b"
  unfolding sameInterface_def list_all_iff by (auto intro: nth_equalityI)

lemma diff_curr_loop_eq:
  "diff_curr_loop prev cs (added, updated) =
     (added @ map snd (filter (\<lambda>e. prev (fst e) = None) cs),
      updated @ map (mk_change prev) (filter (is_update prev) cs))"
  by (induction cs arbitrary: added updated)
     (auto simp: is_update_def mk_change_def split: option.splits)

lemma diff_prev_loop_eq:
  "diff_prev_loop cur ps removed = removed @ map snd (filter (\<lambda>e. cur (fst e) = None) ps)"
  by (induction ps arbitrary: removed) (auto split: option.splits)

lemma sorted_keys_of_range:
  fixes key :: "'b \<Rightarrow> string"
  assumes d: "distinct (map fst es)" and k: "\<forall>e\<in>set es. key (g e) = fst e"
  shows "map key (sort_key key (map g (filter P es))) = sorted_list_of_set (fst ` {e \<in> set es. P e})"
proof -
  let ?xs = "map g (filter P es)"
  have m: "map key ?xs = map fst (filter P es)" using k by (induction es) auto
  have dk: "distinct (map key ?xs)" unfolding m using d by (rule distinct_map_filter)
  have "mset (map key (sort_key key ?xs)) = mset (map key ?xs)" by (simp only: mset_map mset_sort)
  then have d2: "distinct (map key (sort_key key ?xs))" using dk by (metis mset_eq_imp_distinct_iff)
  have s2: "set (map key (sort_key key ?xs)) = fst ` {e \<in> set es. P e}"
  proof -
    have "set (map key (sort_key key ?xs)) = set (map key ?xs)" by (simp only: set_map set_sort)
    also have "\<dots> = set (map fst (filter P es))" by (simp only: m)
    also have "\<dots> = fst ` {e \<in> set es. P e}" by simp
    finally show ?thesis .
  qed
  show ?thesis
    by (rule sorted_distinct_set_unique) (use d2 s2 in \<open>auto\<close>)
qed

lemma range_entries_iff: "range_entries m es \<Longrightarrow> (k, v) \<in> set es \<longleftrightarrow> m k = Some v"
  by (auto simp: range_entries_def)

lemma range_entries_keyed:
  "range_entries m es \<Longrightarrow> keyed_by_name m \<Longrightarrow> \<forall>e\<in>set es. Name (snd e) = fst e"
  by (auto simp: range_entries_def keyed_by_name_def)

lemma diffInterfaces_eq:
  "diffInterfaces ps cs prev cur =
     (sort_key Name (map snd (filter (\<lambda>e. prev (fst e) = None) cs)),
      sort_key Name (map snd (filter (\<lambda>e. cur (fst e) = None) ps)),
      sort_key change_Name (map (mk_change prev) (filter (is_update prev) cs)))"
  by (simp add: diffInterfaces_def diff_curr_loop_eq diff_prev_loop_eq)

lemma range_entries_absent:
  "range_entries m es \<Longrightarrow> fst ` {e \<in> set es. other (fst e) = None} = dom m - dom other"
  by (force simp: range_entries_def dom_def image_iff)

lemma range_entries_dom: "range_entries m es \<Longrightarrow> fst ` set es = dom m"
  by (metis dom_map_of_conv_image_fst range_entries_def)

lemma range_entries_mem: "range_entries m es \<Longrightarrow> e \<in> set es \<Longrightarrow> m (fst e) = Some (snd e)"
  by (cases e) (simp add: range_entries_iff)

lemma range_entries_stored:
  assumes "range_entries m es" "keyed_by_name m"
  shows "\<forall>e\<in>set es. m (Name (snd e)) = Some (snd e)"
proof
  fix e assume e: "e \<in> set es"
  then have "m (fst e) = Some (snd e)" using assms(1) by (simp add: range_entries_mem)
  then show "m (Name (snd e)) = Some (snd e)" using assms(2) by (simp add: keyed_by_name_def)
qed

lemma set_updated:
  assumes cs: "range_entries cur cs" and u: "u \<in> set (map (mk_change prev) (filter (is_update prev) cs))"
  shows "prev (change_Name u) = Some (Before u) \<and> cur (change_Name u) = Some (After u)
         \<and> \<not> sameInterface (Before u) (After u)"
proof -
  from u obtain e where e: "e \<in> set cs" "is_update prev e" "u = mk_change prev e" by auto
  from e(1) have c: "cur (fst e) = Some (snd e)" using cs by (simp add: range_entries_mem)
  from e(2) obtain p where p: "prev (fst e) = Some p" "\<not> sameInterface p (snd e)"
    by (auto simp: is_update_def split: option.splits)
  show ?thesis using c p e(3) by (simp add: mk_change_def)
qed

text \<open>
  Claim C3. For snapshots \<open>prev\<close> and \<open>curr\<close> (their interfaces are stored under their own
  names, see \<open>collect_keyed_by_name\<close>) and every visiting order of the two maps,
  \<open>diffInterfaces\<close> returns as \<open>added\<close> the interfaces whose name is in \<open>curr\<close> but not in
  \<open>prev\<close>, as \<open>removed\<close> those whose name is
  in \<open>prev\<close> but not in \<open>curr\<close>, and \<open>updated\<close> entries only for names in both, each
  carrying the stored before and after values. The names of \<open>added\<close>, of \<open>removed\<close> and the
  names present in both partition the union of the two name sets, and each output is
  sorted by name (the sorted list of a set has no repetitions).
\<close>

theorem diffInterfaces_partition:
  assumes ps: "range_entries prev ps" and cs: "range_entries cur cs"
    and kp: "keyed_by_name prev" and kc: "keyed_by_name cur"
  shows "case diffInterfaces ps cs prev cur of (added, removed, updated) \<Rightarrow>
      map Name added = sorted_list_of_set (dom cur - dom prev)
    \<and> (\<forall>a\<in>set added. cur (Name a) = Some a)
    \<and> map Name removed = sorted_list_of_set (dom prev - dom cur)
    \<and> (\<forall>r\<in>set removed. prev (Name r) = Some r)
    \<and> set (map change_Name updated) \<subseteq> dom prev \<inter> dom cur
    \<and> (\<forall>u\<in>set updated. prev (change_Name u) = Some (Before u)
                         \<and> cur (change_Name u) = Some (After u))
    \<and> sorted (map Name added) \<and> sorted (map Name removed)
    \<and> sorted (map change_Name updated) \<and> distinct (map change_Name updated)
    \<and> set (map Name added) \<union> set (map Name removed) \<union> (dom prev \<inter> dom cur)
        = dom prev \<union> dom cur
    \<and> set (map Name added) \<inter> set (map Name removed) = {}
    \<and> set (map Name added) \<inter> (dom prev \<inter> dom cur) = {}
    \<and> set (map Name removed) \<inter> (dom prev \<inter> dom cur) = {}"
proof -
  let ?added = "sort_key Name (map snd (filter (\<lambda>e. prev (fst e) = None) cs))"
  let ?removed = "sort_key Name (map snd (filter (\<lambda>e. cur (fst e) = None) ps))"
  let ?updated = "sort_key change_Name (map (mk_change prev) (filter (is_update prev) cs))"
  have fin: "finite (dom cur)" "finite (dom prev)"
    using range_entries_dom[OF cs] range_entries_dom[OF ps] by (metis finite_imageI finite_set)+
  have dcs: "distinct (map fst cs)" and dps: "distinct (map fst ps)"
    using cs ps by (auto simp: range_entries_def)
  have a1: "map Name ?added = sorted_list_of_set (dom cur - dom prev)"
    using sorted_keys_of_range[where key = Name and g = snd and es = cs
        and P = "\<lambda>e. prev (fst e) = None", OF dcs range_entries_keyed[OF cs kc]]
    by (simp add: range_entries_absent[OF cs])
  have r1: "map Name ?removed = sorted_list_of_set (dom prev - dom cur)"
    using sorted_keys_of_range[where key = Name and g = snd and es = ps
        and P = "\<lambda>e. cur (fst e) = None", OF dps range_entries_keyed[OF ps kp]]
    by (simp add: range_entries_absent[OF ps])
  have a2: "\<forall>a\<in>set ?added. cur (Name a) = Some a"
    using range_entries_stored[OF cs kc] by auto
  have r2: "\<forall>r\<in>set ?removed. prev (Name r) = Some r"
    using range_entries_stored[OF ps kp] by auto
  have u1: "map change_Name ?updated = sorted_list_of_set (fst ` {e \<in> set cs. is_update prev e})"
    by (rule sorted_keys_of_range[where key = change_Name and g = "mk_change prev", OF dcs])
       (simp add: mk_change_def)
  have u2: "\<forall>u\<in>set ?updated. prev (change_Name u) = Some (Before u)
                         \<and> cur (change_Name u) = Some (After u)"
    using set_updated[OF cs, of _ prev] by simp
  have u3: "set (map change_Name ?updated) \<subseteq> dom prev \<inter> dom cur"
    using u2 by (auto simp: dom_def)
  have sa: "set (map Name ?added) = dom cur - dom prev" unfolding a1 using fin by simp
  have sr: "set (map Name ?removed) = dom prev - dom cur" unfolding r1 using fin by simp
  have su: "sorted (map change_Name ?updated)" "distinct (map change_Name ?updated)"
    unfolding u1 by simp_all
  have so: "sorted (map Name ?added)" "sorted (map Name ?removed)"
    by simp_all
  have p1: "set (map Name ?added) \<union> set (map Name ?removed) \<union> (dom prev \<inter> dom cur)
        = dom prev \<union> dom cur" unfolding sa sr by blast
  have p2: "set (map Name ?added) \<inter> set (map Name ?removed) = {}" unfolding sa sr by blast
  have p3: "set (map Name ?added) \<inter> (dom prev \<inter> dom cur) = {}" unfolding sa by blast
  have p4: "set (map Name ?removed) \<inter> (dom prev \<inter> dom cur) = {}" unfolding sr by blast
  show ?thesis
    unfolding diffInterfaces_eq prod.case
    by (intro conjI a1 a2 r1 r2 u3 u2 so su p1 p2 p3 p4)
qed

lemma describe_nonempty: "describeInterfaceChange b a \<noteq> []"
  by (simp add: describeInterfaceChange_def Let_def)

lemma describe_fallback:
  "MTU b = MTU a \<Longrightarrow> HardwareAddr b = HardwareAddr a \<Longrightarrow> Flags b = Flags a
   \<Longrightarrow> describeInterfaceChange b a = [''no visible field differences'']"
  by (simp add: describeInterfaceChange_def Let_def equalStrings_iff)

lemma demo_diff: "diffInterfaces demo_prev demo_cur (map_of demo_prev) (map_of demo_cur) =
  ([demo_eth2], [demo_eth1], [\<lparr>change_Name = ''eth0'', Before = demo_eth0, After = demo_eth0'\<rparr>])"
  by (simp add: diffInterfaces_def demo_prev_def demo_cur_def demo_eth0_def demo_eth0'_def demo_eth1_def demo_eth2_def sameInterface_def)

lemma demo_describe: "describeInterfaceChange demo_eth0 demo_eth0' = [''MTU 1500'' @ arrow @ ''1400'']"
  by (simp add: describeInterfaceChange_def demo_eth0_def demo_eth0'_def equalStrings_def Sprintf_d_def digits.simps)

text \<open>
  Claim C8. For an interface stored under the same name \<open>k\<close> in both snapshots,
  \<open>diffInterfaces\<close> reports an update for \<open>k\<close> exactly when name, hardware address, MTU or
  the flag sequence (compared element by element, in order) differ, and the reported entry
  carries the two stored values. The descriptor list of every reported update is non-empty;
  when neither MTU, hardware address nor flags differ, it is the single entry
  \<open>no visible field differences\<close>.
\<close>

theorem diffInterfaces_update_iff:
  assumes cs: "range_entries cur cs" and p: "prev k = Some p" and c: "cur k = Some c"
  shows "case diffInterfaces ps cs prev cur of (added, removed, updated) \<Rightarrow>
      (k \<in> set (map change_Name updated) \<longleftrightarrow>
         \<not> (Name p = Name c \<and> HardwareAddr p = HardwareAddr c \<and> MTU p = MTU c
            \<and> Flags p = Flags c))
    \<and> (\<forall>u\<in>set updated. change_Name u = k \<longrightarrow> Before u = p \<and> After u = c)
    \<and> (\<forall>u\<in>set updated. describeInterfaceChange (Before u) (After u) \<noteq> [])
    \<and> (\<forall>u\<in>set updated.
          MTU (Before u) = MTU (After u) \<and> HardwareAddr (Before u) = HardwareAddr (After u)
          \<and> Flags (Before u) = Flags (After u)
          \<longrightarrow> describeInterfaceChange (Before u) (After u) = [''no visible field differences''])"
proof -
  let ?raw = "map (mk_change prev) (filter (is_update prev) cs)"
  let ?updated = "sort_key change_Name ?raw"
  have mem: "(k, c) \<in> set cs" using cs c by (simp add: range_entries_iff)
  have upd: "is_update prev (k, c) \<longleftrightarrow> \<not> sameInterface p c"
    using p by (simp add: is_update_def)
  have a: "k \<in> set (map change_Name ?updated) \<longleftrightarrow> \<not> sameInterface p c"
  proof
    assume "k \<in> set (map change_Name ?updated)"
    then obtain u where u: "u \<in> set ?raw" "change_Name u = k" by auto
    from set_updated[OF cs u(1)] u(2) p c show "\<not> sameInterface p c" by simp
  next
    assume "\<not> sameInterface p c"
    then have "mk_change prev (k, c) \<in> set ?raw" using mem upd by auto
    then have "change_Name (mk_change prev (k, c)) \<in> set (map change_Name ?updated)"
      by (simp only: set_map set_sort) (rule imageI)
    then show "k \<in> set (map change_Name ?updated)" by (simp add: mk_change_def)
  qed
  have b: "\<forall>u\<in>set ?updated. change_Name u = k \<longrightarrow> Before u = p \<and> After u = c"
  proof (intro ballI impI)
    fix u assume "u \<in> set ?updated" and k: "change_Name u = k"
    then have "u \<in> set ?raw" by simp
    from set_updated[OF cs this] k p c show "Before u = p \<and> After u = c" by simp
  qed
  show ?thesis
    unfolding diffInterfaces_eq prod.case
    using a b by (simp add: sameInterface_iff describe_nonempty describe_fallback)
qed

lemma demo_ranges:
  "range_entries (map_of demo_prev) demo_prev" "range_entries (map_of demo_cur) demo_cur"
  "keyed_by_name (map_of demo_prev)" "keyed_by_name (map_of demo_cur)"
  by (simp_all add: range_entries_def keyed_by_name_def demo_prev_def demo_cur_def
        demo_eth0_def demo_eth0'_def demo_eth1_def demo_eth2_def)

theorem diffInterfaces_partition_witness:
  "range_entries (map_of demo_prev) demo_prev \<and> range_entries (map_of demo_cur) demo_cur
   \<and> keyed_by_name (map_of demo_prev) \<and> keyed_by_name (map_of demo_cur)
   \<and> diffInterfaces demo_prev demo_cur (map_of demo_prev) (map_of demo_cur)
       = ([demo_eth2], [demo_eth1],
          [\<lparr>change_Name = ''eth0'', Before = demo_eth0, After = demo_eth0'\<rparr>])
   \<and> map Name [demo_eth2] = sorted_list_of_set (dom (map_of demo_cur) - dom (map_of demo_prev))
   \<and> map Name [demo_eth1] = sorted_list_of_set (dom (map_of demo_prev) - dom (map_of demo_cur))
   \<and> set (map Name [demo_eth2]) \<union> set (map Name [demo_eth1])
        \<union> (dom (map_of demo_prev) \<inter> dom (map_of demo_cur))
       = dom (map_of demo_prev) \<union> dom (map_of demo_cur)"
  using diffInterfaces_partition[OF demo_ranges, unfolded demo_diff prod.case] demo_ranges demo_diff
  by (elim conjE, intro conjI) assumption+

theorem diffInterfaces_update_iff_witness:
  "range_entries (map_of demo_cur) demo_cur
   \<and> map_of demo_prev ''eth0'' = Some demo_eth0 \<and> map_of demo_cur ''eth0'' = Some demo_eth0'
   \<and> diffInterfaces demo_prev demo_cur (map_of demo_prev) (map_of demo_cur)
       = ([demo_eth2], [demo_eth1],
          [\<lparr>change_Name = ''eth0'', Before = demo_eth0, After = demo_eth0'\<rparr>])
   \<and> MTU demo_eth0 \<noteq> MTU demo_eth0'
   \<and> describeInterfaceChange demo_eth0 demo_eth0' \<noteq> []
   \<and> describeInterfaceChange demo_eth0 demo_eth0' = [''MTU 1500'' @ arrow @ ''1400'']"
proof -
  have p: "map_of demo_prev ''eth0'' = Some demo_eth0" by (simp add: demo_prev_def)
  have c: "map_of demo_cur ''eth0'' = Some demo_eth0'" by (simp add: demo_cur_def)
  note th = diffInterfaces_update_iff[where cur = "map_of demo_cur" and cs = demo_cur
      and prev = "map_of demo_prev" and ps = demo_prev and k = "''eth0''"
      and p = demo_eth0 and c = demo_eth0', OF demo_ranges(2) p c,
      unfolded demo_diff prod.case]
  have "describeInterfaceChange demo_eth0 demo_eth0' \<noteq> []" using th by simp
  moreover have "MTU demo_eth0 \<noteq> MTU demo_eth0'" by (simp add: demo_eth0_def demo_eth0'_def)
  ultimately show ?thesis using demo_ranges(2) p c demo_diff demo_describe by simp
qed

section \<open>Properties of the address diff\<close>

lemma fold_snoc_filter: "fold (\<lambda>v acc. if P v then acc @ [v] else acc) xs acc = acc @ filter P xs"
  by (induction xs arbitrary: acc) auto

lemma fold_upd_dom: "dom (fold (\<lambda>v m. m(v \<mapsto> ())) xs m) = dom m \<union> set xs"
  by (induction xs arbitrary: m) auto

lemma string_set_None: "string_set xs v = None \<longleftrightarrow> v \<notin> set xs"
proof -
  have "dom (string_set xs) = set xs" by (simp add: string_set_def fold_upd_dom)
  then show ?thesis by (metis domIff)
qed

lemma dom_string_set: "dom (string_set xs) = set xs"
  by (simp add: string_set_def fold_upd_dom)

lemma dom_seen_names: "dom (seen_names po co) = set po \<union> set co"
  by (simp add: seen_names_def fold_upd_dom)

lemma sort_distinct_filter:
  fixes ks :: "string list"
  assumes "distinct ks"
  shows "sort (filter P ks) = sorted_list_of_set {k \<in> set ks. P k}"
proof -
  have "sorted_list_of_set (set (filter P ks)) = sort (remdups (filter P ks))"
    by (rule sorted_list_of_set_sort_remdups)
  moreover have "remdups (filter P ks) = filter P ks" using assms by (simp add: distinct_remdups_id)
  ultimately show ?thesis by simp
qed

lemma diffStringSets_eq:
  assumes n: "range_keys (string_set new) no" and o: "range_keys (string_set old) oo"
  shows "diffStringSets no oo old new =
           (sorted_list_of_set (set new - set old), sorted_list_of_set (set old - set new))"
proof -
  have dn: "distinct no" "set no = set new" and do: "distinct oo" "set oo = set old"
    using n o by (simp_all add: range_keys_def dom_string_set)
  have a: "{k \<in> set no. string_set old k = None} = set new - set old"
    using dn(2) by (auto simp: string_set_None)
  have b: "{k \<in> set oo. string_set new k = None} = set old - set new"
    using do(2) by (auto simp: string_set_None)
  show ?thesis
    by (simp add: diffStringSets_def Let_def fold_snoc_filter
        sort_distinct_filter[OF dn(1)] sort_distinct_filter[OF do(1)] a b)
qed

lemma fold_changes:
  "fold (\<lambda>name changes.
           if sorted_list_of_set (addr_set cur name - addr_set prev name) = []
              \<and> sorted_list_of_set (addr_set prev name - addr_set cur name) = []
           then changes
           else changes @ [\<lparr>addr_Name = name,
                   Added = sorted_list_of_set (addr_set cur name - addr_set prev name),
                   Removed = sorted_list_of_set (addr_set prev name - addr_set cur name)\<rparr>])
        names acc
   = acc @ map (change_for prev cur)
             (filter (\<lambda>name. addr_set cur name \<noteq> addr_set prev name) names)"
proof (induction names arbitrary: acc)
  case Nil
  then show ?case by simp
next
  case (Cons name names)
  have fin: "finite (addr_set cur name - addr_set prev name)"
            "finite (addr_set prev name - addr_set cur name)"
    by (simp_all add: addr_set_def)
  have e: "(sorted_list_of_set (addr_set cur name - addr_set prev name) = []
           \<and> sorted_list_of_set (addr_set prev name - addr_set cur name) = [])
           \<longleftrightarrow> addr_set cur name = addr_set prev name"
    using fin by (auto simp: sorted_list_of_set_eq_Nil_iff)
  show ?case
  proof (cases "addr_set cur name = addr_set prev name")
    case True
    then show ?thesis by (simp add: Cons.IH)
  next
    case False
    with e have "\<not> (sorted_list_of_set (addr_set cur name - addr_set prev name) = []
           \<and> sorted_list_of_set (addr_set prev name - addr_set cur name) = [])" by simp
    with False show ?thesis by (simp add: Cons.IH change_for_def)
  qed
qed

lemma diffAddresses_eq:
  assumes v: "valid_addr_ranges r prev cur"
  shows "diffAddresses r prev cur =
           map (change_for prev cur)
             (filter (\<lambda>name. addr_set cur name \<noteq> addr_set prev name)
                (sorted_list_of_set (dom prev \<union> dom cur)))"
proof -
  have s: "distinct (over_seen r)" "set (over_seen r) = dom prev \<union> dom cur"
    using v by (auto simp: valid_addr_ranges_def range_keys_def dom_seen_names)
  have names: "sort (fold (\<lambda>name names. names @ [name]) (over_seen r) [])
               = sorted_list_of_set (dom prev \<union> dom cur)"
  proof -
    have "fold (\<lambda>name names. names @ [name]) (over_seen r) [] = over_seen r"
      using fold_snoc_filter[of "\<lambda>_. True" "over_seen r" "[]"] by simp
    moreover have "sort (over_seen r) = sorted_list_of_set (set (over_seen r))"
      using s(1) by (simp add: sorted_list_of_set_sort_remdups distinct_remdups_id)
    ultimately show ?thesis by (simp only: s(2))
  qed
  have f: "\<forall>name. diffStringSets (fst (over_sets r name)) (snd (over_sets r name))
                         (index_or_nil prev name) (index_or_nil cur name)
            = (sorted_list_of_set (addr_set cur name - addr_set prev name),
               sorted_list_of_set (addr_set prev name - addr_set cur name))"
    using v by (simp add: valid_addr_ranges_def diffStringSets_eq addr_set_def)
  show ?thesis
    unfolding diffAddresses_def Let_def names
    by (simp add: f[rule_format] fold_changes)
qed

lemma permuted_lists_addr_set: "permuted_lists m m' \<Longrightarrow> addr_set m' name = addr_set m name"
proof -
  assume "permuted_lists m m'"
  then have r: "rel_option (\<lambda>xs ys. mset xs = mset ys) (m name) (m' name)"
    by (simp add: permuted_lists_def)
  show ?thesis
  proof (cases "m name")
    case None
    with r show ?thesis by (cases "m' name") (simp_all add: addr_set_def index_or_nil_def)
  next
    case (Some xs)
    with r obtain ys where "m' name = Some ys" "mset xs = mset ys"
      by (cases "m' name") auto
    with Some show ?thesis by (simp add: addr_set_def index_or_nil_def) (metis set_mset_mset)
  qed
qed

lemma permuted_lists_dom: "permuted_lists m m' \<Longrightarrow> dom m' = dom m"
proof -
  assume p: "permuted_lists m m'"
  have "\<And>name. (m' name = None) = (m name = None)"
  proof -
    fix name
    from p have "rel_option (\<lambda>xs ys. mset xs = mset ys) (m name) (m' name)"
      by (simp add: permuted_lists_def)
    then show "(m' name = None) = (m name = None)"
      by (cases "m name"; cases "m' name") simp_all
  qed
  then show ?thesis by (auto simp: dom_def)
qed

lemma diffAddresses_same_sets:
  assumes "valid_addr_ranges r prev cur" and "permuted_lists prev cur"
  shows "diffAddresses r prev cur = []"
  by (simp add: diffAddresses_eq[OF assms(1)] permuted_lists_addr_set[OF assms(2)])

text \<open>
  Claim C4. \<open>diffAddresses\<close> is invariant under permutation of the elements of any address
  list of either mapping: for mappings that differ only by such permutations, and whatever
  the visiting orders of the two runs, the reported list of changes is the same. In
  particular two mappings that differ only by the order inside their lists produce no
  entry at all.
\<close>

theorem diffAddresses_permutation_invariant:
  assumes "valid_addr_ranges r prev cur" and "valid_addr_ranges r' prev' cur'"
    and "permuted_lists prev prev'" and "permuted_lists cur cur'"
  shows "diffAddresses r' prev' cur' = diffAddresses r prev cur
         \<and> (permuted_lists prev cur \<longrightarrow> diffAddresses r prev cur = [])"
proof -
  have a: "\<And>name. addr_set prev' name = addr_set prev name"
          "\<And>name. addr_set cur' name = addr_set cur name"
    using assms(3,4) by (simp_all add: permuted_lists_addr_set)
  have c: "change_for prev' cur' = change_for prev cur"
    by (rule ext) (simp add: change_for_def a)
  have d: "dom prev' = dom prev" "dom cur' = dom cur"
    using assms(3,4) by (simp_all add: permuted_lists_dom)
  have "diffAddresses r' prev' cur' = diffAddresses r prev cur"
    by (simp add: diffAddresses_eq[OF assms(1)] diffAddresses_eq[OF assms(2)] a c d)
  then show ?thesis using diffAddresses_same_sets[OF assms(1)] by simp
qed

lemma valid_ranges_for:
  assumes "range_keys prev po" "range_keys cur co" "distinct so" "set so = set po \<union> set co"
  shows "valid_addr_ranges (ranges_for po co so prev cur) prev cur"
  using assms by (simp add: valid_addr_ranges_def ranges_for_def range_keys_def dom_seen_names dom_string_set)

lemma demo_valid: "valid_addr_ranges demo_r demo_addrs_prev demo_addrs_cur"
  unfolding demo_r_def
  by (rule valid_ranges_for) (auto simp: range_keys_def demo_addrs_prev_def demo_addrs_cur_def)

lemma demo_valid': "valid_addr_ranges demo_r' demo_addrs_prev' demo_addrs_cur'"
  unfolding demo_r'_def
  by (rule valid_ranges_for) (auto simp: range_keys_def demo_addrs_prev'_def demo_addrs_cur'_def)

lemma demo_perm: "permuted_lists demo_addrs_prev demo_addrs_prev'" "permuted_lists demo_addrs_cur demo_addrs_cur'"
  by (simp_all add: permuted_lists_def demo_addrs_prev_def demo_addrs_prev'_def demo_addrs_cur_def demo_addrs_cur'_def)

lemma string_set_simps: "string_set [] = Map.empty" "string_set (x # xs) v = (if v \<in> set (x # xs) then Some () else None)"
  using string_set_None[of "x # xs" v] by (auto simp: string_set_def)

lemma demo_addr_diff:
  "diffAddresses demo_r demo_addrs_prev demo_addrs_cur =
     [\<lparr>addr_Name = ''eth0'', Added = [''198.51.100.1/24''], Removed = [''2001:db8::1/64'']\<rparr>,
      \<lparr>addr_Name = ''eth1'', Added = [], Removed = [''192.0.2.2/24'']\<rparr>,
      \<lparr>addr_Name = ''eth2'', Added = [''203.0.113.5/24''], Removed = []\<rparr>]"
  by (simp add: diffAddresses_def diffStringSets_def demo_r_def ranges_for_def demo_addrs_prev_def
        demo_addrs_cur_def index_or_nil_def string_set_def)

theorem diffAddresses_permutation_invariant_witness:
  "valid_addr_ranges demo_r demo_addrs_prev demo_addrs_cur
   \<and> valid_addr_ranges demo_r' demo_addrs_prev' demo_addrs_cur'
   \<and> permuted_lists demo_addrs_prev demo_addrs_prev'
   \<and> permuted_lists demo_addrs_cur demo_addrs_cur'
   \<and> diffAddresses demo_r' demo_addrs_prev' demo_addrs_cur'
       = diffAddresses demo_r demo_addrs_prev demo_addrs_cur
   \<and> diffAddresses demo_r demo_addrs_prev demo_addrs_cur =
       [\<lparr>addr_Name = ''eth0'', Added = [''198.51.100.1/24''], Removed = [''2001:db8::1/64'']\<rparr>,
        \<lparr>addr_Name = ''eth1'', Added = [], Removed = [''192.0.2.2/24'']\<rparr>,
        \<lparr>addr_Name = ''eth2'', Added = [''203.0.113.5/24''], Removed = []\<rparr>]"
  using diffAddresses_permutation_invariant[OF demo_valid demo_valid' demo_perm]
    demo_valid demo_valid' demo_perm demo_addr_diff
  by (elim conjE, intro conjI) assumption+

section \<open>Properties of snapshot collection and of the watcher\<close>

lemma Viewer_View_sorted:
  "Viewer_View v name st = (Inr addrs, st') \<Longrightarrow> sorted addrs"
  by (auto simp: Viewer_View_def Let_def split: option.splits if_splits prod.splits sum.splits)



lemma Lister_List_names:
  "Lister_List l st = (Inr list, st') \<Longrightarrow>
     \<exists>raw os'. lister_provider l \<noteq> None \<and> the (lister_provider l) (os st) = (Inr raw, os') \<and> list = sort_key Name raw"
  by (auto simp: Lister_List_def Let_def split: option.splits prod.splits sum.splits)

text \<open>Every snapshot \<open>collect\<close> produces stores its interfaces under their own names.\<close>

lemma collect_loop_keyed_by_name:
  "collect_loop w list snap st = (Inr snap', st') \<Longrightarrow> keyed_by_name (interfaces snap)
   \<Longrightarrow> keyed_by_name (interfaces snap')"
proof (induction list arbitrary: snap st)
  case Nil
  then show ?case by simp
next
  case (Cons iface rest)
  show ?case
  proof (cases "w_Interface w \<noteq> [] \<and> Name iface \<noteq> w_Interface w")
    case True
    with Cons show ?thesis by simp
  next
    case False
    with Cons.prems(1) obtain addrs st1 where
      r: "collect_loop w rest
            (snap\<lparr>interfaces := (interfaces snap)(Name iface \<mapsto> iface),
                  addresses := (addresses snap)(Name iface \<mapsto> sort addrs)\<rparr>) st1 = (Inr snap', st')"
      by (auto simp: Let_def split: prod.splits sum.splits)
    have "keyed_by_name (interfaces (snap\<lparr>interfaces := (interfaces snap)(Name iface \<mapsto> iface),
                  addresses := (addresses snap)(Name iface \<mapsto> sort addrs)\<rparr>))"
      using Cons.prems(2) by (auto simp: keyed_by_name_def)
    from Cons.IH[OF r this] show ?thesis .
  qed
qed

lemma collect_keyed_by_name:
  assumes "collect w st = (Inr snap, st')"
  shows "keyed_by_name (interfaces snap)"
proof -
  from assms obtain list st0 snap0 where
    cl: "collect_loop w list \<lparr>interfaces = Map.empty, addresses = Map.empty\<rparr> st0 = (Inr snap0, st')"
    and s: "interfaces snap = interfaces snap0"
    by (auto simp: collect_def Let_def split: prod.splits sum.splits if_splits)
  have "keyed_by_name (interfaces \<lparr>interfaces = Map.empty, addresses = Map.empty\<rparr>)"
    by (simp add: keyed_by_name_def)
  from collect_loop_keyed_by_name[OF cl this] s show ?thesis by simp
qed





text \<open>
  Claim C10. \<open>Run\<close> with a nil \<open>Writer\<close> or with an \<open>Interval\<close> that is not positive
  returns an error at once and leaves the world as it was: no provider has been called and
  nothing has been written, whatever events are pending. The checks come before the first
  \<open>collect\<close>.
\<close>

theorem Run_validates_first:
  assumes "Writer w = None \<or> Interval w \<le> 0"
  shows "Run w order events st =
           (Returned (ErrorNew (if Writer w = None then ''writer is required''
                                else ''interval must be positive'')), st)"
  using assms by (auto simp: Run_def)





theorem Run_validates_first_witness:
  "Interval (demo_watcher\<lparr>Interval := 0\<rparr>) \<le> 0
   \<and> Run (demo_watcher\<lparr>Interval := 0\<rparr>) [] [Done (ErrorNew ''context canceled'')] (demo_world 1)
       = (Returned (ErrorNew ''interval must be positive''), demo_world 1)
   \<and> Writer (demo_watcher\<lparr>Writer := None\<rparr>) = None
   \<and> Run (demo_watcher\<lparr>Writer := None\<rparr>) [] [Done (ErrorNew ''context canceled'')] (demo_world 1)
       = (Returned (ErrorNew ''writer is required''), demo_world 1)"
proof -
  have a: "Interval (demo_watcher\<lparr>Interval := 0\<rparr>) \<le> 0" by simp
  have b: "Writer (demo_watcher\<lparr>Writer := None\<rparr>) = None" by simp
  have c: "Writer (demo_watcher\<lparr>Interval := 0\<rparr>) \<noteq> None" by (simp add: demo_watcher_def)
  from Run_validates_first[of "demo_watcher\<lparr>Interval := 0\<rparr>" "[]" "[Done (ErrorNew ''context canceled'')]" "demo_world 1"]
    Run_validates_first[of "demo_watcher\<lparr>Writer := None\<rparr>" "[]" "[Done (ErrorNew ''context canceled'')]" "demo_world 1"]
    a b c show ?thesis by simp
qed

text \<open>
  The watcher scenario of the specification, on the unfiltered watcher: one collection,
  the initial report, then the cancellation is returned.
\<close>

lemma demo_Run_cancelled:
  "Run (demo_watcher\<lparr>w_Interface := []\<rparr>) [''lo'', ''eth0''] [Done (ErrorNew ''context canceled'')] (demo_world 1)
     = (Returned (ErrorNew ''context canceled''),
        \<lparr>os = 1,
         provider_calls = [CallListInterfaces, CallInterfaceAddresses ''eth0'', CallInterfaceAddresses ''lo''],
         written = [''[2024-01-01T00:00:00Z] monitoring started (interval 1ms)'' @ newline,
                    '' - eth0 (MTU=1500, HW=aa:bb)'' @ newline,
                    ''   addresses: 192.0.2.1/24'' @ newline,
                    '' - lo (MTU=65536, HW=)'' @ newline,
                    ''   addresses: 127.0.0.1/8'' @ newline]\<rparr>)"
  by (simp add: Run_def collect_def Lister_List_def Viewer_View_def demo_watcher_def demo_world_def
        demo_ListInterfaces_def demo_InterfaceAddresses_def demo_lo_def demo_eth0_def
        printInitial_def Fprint_def Sprintf_d_def digits.simps index_or_nil_def)

section \<open>Properties of the reconciliation executor\<close>

lemma calls_do_LinkByName:
  "do_LinkByName p name k = (res, k') \<Longrightarrow> calls k' = calls k @ [CallLinkByName name]"
  by (auto simp: do_LinkByName_def split: prod.splits)

lemma calls_do_AddrList:
  "do_AddrList p link family k = (res, k') \<Longrightarrow> calls k' = calls k @ [CallAddrList link family]"
  by (auto simp: do_AddrList_def split: prod.splits)

lemma calls_do_AddrAdd:
  "do_AddrAdd p link addr k = (res, k') \<Longrightarrow> calls k' = calls k @ [CallAddrAdd link addr]"
  by (auto simp: do_AddrAdd_def split: prod.splits)

lemma calls_do_AddrDel:
  "do_AddrDel p link addr k = (res, k') \<Longrightarrow> calls k' = calls k @ [CallAddrDel link addr]"
  by (auto simp: do_AddrDel_def split: prod.splits)

lemma parsed_addrs_Cons:
  "ParseAddr lib addrStr = Inr addr \<Longrightarrow>
     parsed_addrs lib (addrStr # rest) = addr # parsed_addrs lib rest"
  by (simp add: parsed_addrs_def)

lemma parse_loop_step:
  assumes "parse_loop lib (addrStr # rest) (d0, fs0, f0) = Inr (desired, families)"
  obtains addr where "ParseAddr lib addrStr = Inr addr"
    and "parse_loop lib rest
           (d0(Addr_String lib addr \<mapsto> addr),
            (if fs0 (addrFamily lib addr) = None then fs0(addrFamily lib addr \<mapsto> ()) else fs0),
            (if fs0 (addrFamily lib addr) = None then f0 @ [addrFamily lib addr] else f0))
         = Inr (desired, families)"
proof -
  from assms obtain addr where a: "ParseAddr lib addrStr = Inr addr"
    by (cases "ParseAddr lib addrStr") auto
  with assms that show ?thesis by (simp add: Let_def split: if_splits)
qed

lemma parse_loop_all_parse:
  "parse_loop lib raw (d0, fs0, f0) = Inr (desired, families) \<Longrightarrow>
     \<forall>addrStr\<in>set raw. \<exists>addr. ParseAddr lib addrStr = Inr addr"
proof (induction raw arbitrary: d0 fs0 f0)
  case Nil
  then show ?case by simp
next
  case (Cons addrStr rest)
  from Cons.prems obtain addr where a: "ParseAddr lib addrStr = Inr addr" and
    r: "parse_loop lib rest
           (d0(Addr_String lib addr \<mapsto> addr),
            (if fs0 (addrFamily lib addr) = None then fs0(addrFamily lib addr \<mapsto> ()) else fs0),
            (if fs0 (addrFamily lib addr) = None then f0 @ [addrFamily lib addr] else f0))
         = Inr (desired, families)" by (rule parse_loop_step)
  from Cons.IH[OF r] a show ?case by simp
qed

lemma parse_loop_dom:
  "parse_loop lib raw (d0, fs0, f0) = Inr (desired, families) \<Longrightarrow>
     dom desired = dom d0 \<union> Addr_String lib ` set (parsed_addrs lib raw)"
proof (induction raw arbitrary: d0 fs0 f0)
  case Nil
  then show ?case by (simp add: parsed_addrs_def)
next
  case (Cons addrStr rest)
  from Cons.prems obtain addr where a: "ParseAddr lib addrStr = Inr addr" and
    r: "parse_loop lib rest
           (d0(Addr_String lib addr \<mapsto> addr),
            (if fs0 (addrFamily lib addr) = None then fs0(addrFamily lib addr \<mapsto> ()) else fs0),
            (if fs0 (addrFamily lib addr) = None then f0 @ [addrFamily lib addr] else f0))
         = Inr (desired, families)" by (rule parse_loop_step)
  from Cons.IH[OF r] show ?case unfolding parsed_addrs_Cons[OF a] by auto
qed


lemma parse_loop_families:
  "parse_loop lib raw (d0, fs0, f0) = Inr (desired, families) \<Longrightarrow> dom fs0 = set f0 \<Longrightarrow> distinct f0
   \<Longrightarrow> set families = set f0 \<union> addrFamily lib ` set (parsed_addrs lib raw) \<and> distinct families"
proof (induction raw arbitrary: d0 fs0 f0)
  case Nil
  then show ?case by (simp add: parsed_addrs_def)
next
  case (Cons addrStr rest)
  from Cons.prems(1) obtain addr where a: "ParseAddr lib addrStr = Inr addr" and
    r: "parse_loop lib rest
           (d0(Addr_String lib addr \<mapsto> addr),
            (if fs0 (addrFamily lib addr) = None then fs0(addrFamily lib addr \<mapsto> ()) else fs0),
            (if fs0 (addrFamily lib addr) = None then f0 @ [addrFamily lib addr] else f0))
         = Inr (desired, families)" by (rule parse_loop_step)
  let ?fam = "addrFamily lib addr"
  have i: "dom (if fs0 ?fam = None then fs0(?fam \<mapsto> ()) else fs0)
           = set (if fs0 ?fam = None then f0 @ [?fam] else f0)"
    using Cons.prems(2) by auto
  have j: "distinct (if fs0 ?fam = None then f0 @ [?fam] else f0)"
    using Cons.prems(2,3) by (auto simp: domIff)
  have m: "fs0 ?fam \<noteq> None \<Longrightarrow> ?fam \<in> set f0" using Cons.prems(2) by (auto simp: domIff)
  from Cons.IH[OF r i j] m show ?case
    unfolding parsed_addrs_Cons[OF a] by (auto split: if_splits)
qed

lemma parse_loop_Inl:
  assumes "\<forall>g\<in>set good. \<exists>addr. ParseAddr lib g = Inr addr" and "ParseAddr lib bad = Inl err"
  shows "parse_loop lib (good @ bad # rest) acc = Inl (ParseAddress bad err)"
  using assms(1)
proof (induction good arbitrary: acc)
  case Nil
  then show ?case using assms(2) by (cases acc) simp
next
  case (Cons g good)
  then obtain addr where "ParseAddr lib g = Inr addr" by auto
  with Cons show ?case by (cases acc) (simp add: Let_def)
qed

lemma parse_loop_total:
  assumes "\<forall>g\<in>set raw. \<exists>addr. ParseAddr lib g = Inr addr"
  shows "\<exists>desired families. parse_loop lib raw acc = Inr (desired, families)"
  using assms
proof (induction raw arbitrary: acc)
  case Nil
  then show ?case by (cases acc) simp
next
  case (Cons g raw)
  then obtain addr where "ParseAddr lib g = Inr addr" by auto
  with Cons show ?case by (cases acc) (simp add: Let_def)
qed

lemma collect_current_loop_calls:
  "collect_current_loop lib p link families cur0 k = (res, k') \<Longrightarrow>
     \<exists>n\<le>length families. calls k' = calls k @ map (CallAddrList link) (take n families)
        \<and> ((\<exists>current. res = Inr current) \<longrightarrow> n = length families)"
proof (induction families arbitrary: cur0 k)
  case Nil
  then show ?case by auto
next
  case (Cons family rest)
  obtain r1 k1 where d: "do_AddrList p link family k = (r1, k1)" by (cases "do_AddrList p link family k")
  note c1 = calls_do_AddrList[OF d]
  show ?case
  proof (cases r1)
    case (Inl err)
    with Cons.prems d have "k' = k1" "res = Inl (ListAddresses family err)" by auto
    with c1 show ?thesis by (intro exI[of _ 1]) auto
  next
    case (Inr addrs)
    with Cons.prems d have "collect_current_loop lib p link rest
            (fold (\<lambda>addrCopy current. current(IPNet_String lib addrCopy \<mapsto> addrCopy)) addrs cur0) k1 = (res, k')"
      by simp
    from Cons.IH[OF this] obtain n where n: "n \<le> length rest"
      "calls k' = calls k1 @ map (CallAddrList link) (take n rest)"
      "(\<exists>current. res = Inr current) \<longrightarrow> n = length rest" by blast
    with c1 show ?thesis by (intro exI[of _ "Suc n"]) auto
  qed
qed

lemma fold_current_lookup:
  "fold (\<lambda>addrCopy current. current(IPNet_String lib addrCopy \<mapsto> addrCopy)) addrs cur0 key = Some addr
   \<Longrightarrow> cur0 key = Some addr \<or> (addr \<in> set addrs \<and> IPNet_String lib addr = key)"
proof (induction addrs arbitrary: cur0)
  case Nil
  then show ?case by simp
next
  case (Cons a addrs)
  from Cons.prems have "fold (\<lambda>addrCopy current. current(IPNet_String lib addrCopy \<mapsto> addrCopy)) addrs
          (cur0(IPNet_String lib a \<mapsto> a)) key = Some addr" by (simp only: fold_simps)
  from Cons.IH[OF this] show ?case by (auto split: if_splits)
qed

lemma collect_current_loop_entries:
  assumes "\<forall>link family s addrs s'. family \<in> F \<longrightarrow> AddrList p link family s = (Inr addrs, s')
              \<longrightarrow> (\<forall>addr\<in>set addrs. addrFamily lib addr = family)"
  shows "collect_current_loop lib p link families cur0 k = (Inr current, k') \<Longrightarrow> current key = Some addr
     \<Longrightarrow> set families \<subseteq> F \<Longrightarrow> cur0 key = Some addr \<or> addrFamily lib addr \<in> set families"
proof (induction families arbitrary: cur0 k)
  case Nil
  then show ?case by simp
next
  case (Cons family rest)
  obtain r1 k1 where d: "do_AddrList p link family k = (r1, k1)" by (cases "do_AddrList p link family k")
  with Cons.prems(1) obtain addrs where r1: "r1 = Inr addrs" by (cases r1) auto
  from d r1 obtain s' where "AddrList p link family (kstate k) = (Inr addrs, s')"
    by (auto simp: do_AddrList_def split: prod.splits)
  moreover have "family \<in> F" using Cons.prems(3) by simp
  ultimately have fam: "\<forall>addr\<in>set addrs. addrFamily lib addr = family" using assms by blast
  have sub: "set rest \<subseteq> F" using Cons.prems(3) by simp
  from Cons.prems(1) d r1 have "collect_current_loop lib p link rest
            (fold (\<lambda>addrCopy current. current(IPNet_String lib addrCopy \<mapsto> addrCopy)) addrs cur0) k1 = (Inr current, k')"
    by simp
  from Cons.IH[OF this Cons.prems(2) sub] fold_current_lookup[of lib addrs cur0 key addr] fam
  show ?case by auto
qed


lemma add_loop_calls:
  "add_loop p link current es k = (res, k') \<Longrightarrow>
     \<exists>m\<le>length (adds_of current es).
        calls k' = calls k @ map (\<lambda>e. CallAddrAdd link (snd e)) (take m (adds_of current es))
        \<and> (res = None \<longrightarrow> m = length (adds_of current es))"
proof (induction es arbitrary: k)
  case Nil
  then show ?case by (auto simp: adds_of_def)
next
  case (Cons e es)
  obtain key addr where e: "e = (key, addr)" by (cases e)
  show ?case
  proof (cases "current key = None")
    case False
    with Cons e show ?thesis by (auto simp: adds_of_def)
  next
    case True
    obtain r1 k1 where d: "do_AddrAdd p link addr k = (r1, k1)" by (cases "do_AddrAdd p link addr k")
    note c1 = calls_do_AddrAdd[OF d]
    have a: "adds_of current (e # es) = e # adds_of current es" using True e by (simp add: adds_of_def)
    show ?thesis
    proof (cases r1)
      case (Some err)
      with Cons.prems d True e have "k' = k1" "res = Some (AddAddress key err)" by auto
      with c1 a e show ?thesis by (intro exI[of _ 1]) auto
    next
      case None
      with Cons.prems d True e have "add_loop p link current es k1 = (res, k')" by simp
      from Cons.IH[OF this] obtain m where "m \<le> length (adds_of current es)"
        "calls k' = calls k1 @ map (\<lambda>e. CallAddrAdd link (snd e)) (take m (adds_of current es))"
        "res = None \<longrightarrow> m = length (adds_of current es)" by blast
      with c1 a e show ?thesis by (intro exI[of _ "Suc m"]) auto
    qed
  qed
qed

lemma del_loop_calls:
  "del_loop p link desired es k = (res, k') \<Longrightarrow>
     \<exists>m\<le>length (dels_of desired es).
        calls k' = calls k @ map (\<lambda>e. CallAddrDel link (snd e)) (take m (dels_of desired es))
        \<and> (res = None \<longrightarrow> m = length (dels_of desired es))"
proof (induction es arbitrary: k)
  case Nil
  then show ?case by (auto simp: dels_of_def)
next
  case (Cons e es)
  obtain key addr where e: "e = (key, addr)" by (cases e)
  show ?case
  proof (cases "desired key = None")
    case False
    with Cons e show ?thesis by (auto simp: dels_of_def)
  next
    case True
    obtain r1 k1 where d: "do_AddrDel p link addr k = (r1, k1)" by (cases "do_AddrDel p link addr k")
    note c1 = calls_do_AddrDel[OF d]
    have a: "dels_of desired (e # es) = e # dels_of desired es" using True e by (simp add: dels_of_def)
    show ?thesis
    proof (cases r1)
      case (Some err)
      with Cons.prems d True e have "k' = k1" "res = Some (RemoveAddress key err)" by auto
      with c1 a e show ?thesis by (intro exI[of _ 1]) auto
    next
      case None
      with Cons.prems d True e have "del_loop p link desired es k1 = (res, k')" by simp
      from Cons.IH[OF this] obtain m where "m \<le> length (dels_of desired es)"
        "calls k' = calls k1 @ map (\<lambda>e. CallAddrDel link (snd e)) (take m (dels_of desired es))"
        "res = None \<longrightarrow> m = length (dels_of desired es)" by blast
      with c1 a e show ?thesis by (intro exI[of _ "Suc m"]) auto
    qed
  qed
qed

lemma range_entries_distinct: "range_entries m es \<Longrightarrow> distinct (map fst (filter P es))"
  by (simp add: range_entries_def distinct_map_filter)

lemma adds_of_facts:
  assumes "range_entries desired es"
  shows "distinct (map fst (adds_of current es))"
    and "fst ` set (adds_of current es) = dom desired - dom current"
    and "\<forall>e\<in>set (adds_of current es). desired (fst e) = Some (snd e)"
proof -
  show "distinct (map fst (adds_of current es))"
    unfolding adds_of_def using assms by (rule range_entries_distinct)
  have "fst ` {e \<in> set es. current (fst e) = None} = dom desired - dom current"
    using assms by (rule range_entries_absent)
  then show "fst ` set (adds_of current es) = dom desired - dom current"
    by (simp add: adds_of_def)
  show "\<forall>e\<in>set (adds_of current es). desired (fst e) = Some (snd e)"
    using range_entries_mem[OF assms] by (simp add: adds_of_def)
qed

lemma dels_of_facts:
  assumes "range_entries current es"
  shows "distinct (map fst (dels_of desired es))"
    and "fst ` set (dels_of desired es) = dom current - dom desired"
    and "\<forall>e\<in>set (dels_of desired es). current (fst e) = Some (snd e)"
proof -
  show "distinct (map fst (dels_of desired es))"
    unfolding dels_of_def using assms by (rule range_entries_distinct)
  have "fst ` {e \<in> set es. desired (fst e) = None} = dom current - dom desired"
    using assms by (rule range_entries_absent)
  then show "fst ` set (dels_of desired es) = dom current - dom desired"
    by (simp add: dels_of_def)
  show "\<forall>e\<in>set (dels_of desired es). current (fst e) = Some (snd e)"
    using range_entries_mem[OF assms] by (simp add: dels_of_def)
qed

lemma parseDesiredAddresses_facts:
  assumes "parseDesiredAddresses lib raw = Inr (desired, families)"
  shows "dom desired = Addr_String lib ` set (parsed_addrs lib raw)"
    and "set families = addrFamily lib ` set (parsed_addrs lib raw)"
    and "distinct families"
    and "\<forall>addrStr\<in>set raw. \<exists>addr. ParseAddr lib addrStr = Inr addr"
  using assms parse_loop_dom[of lib raw Map.empty Map.empty "[]" desired families]
    parse_loop_families[of lib raw Map.empty Map.empty "[]" desired families]
    parse_loop_all_parse[of lib raw Map.empty Map.empty "[]" desired families]
  by (simp_all add: parseDesiredAddresses_def)

lemma collectCurrent_calls:
  "collectCurrent lib p link families k = (Inr current, k') \<Longrightarrow>
     calls k' = calls k @ map (CallAddrList link) families"
  using collect_current_loop_calls[of lib p link families Map.empty k "Inr current" k']
  by (auto simp: collectCurrent_def)



lemma Apply_reaches_loops:
  assumes p: "Provider n = Some p"
    and l: "do_LinkByName p (cfg_Interface cfg) k = (Inr link, k1)"
    and d: "parseDesiredAddresses lib (Addresses cfg) = Inr (desired, families)"
    and c: "collectCurrent lib p link families k1 = (Inr current, k2)"
  shows "Apply lib n desiredOrder currentOrder cfg k =
           (case add_loop p link current desiredOrder k2 of
              (Some err, k3) \<Rightarrow> (Some err, k3)
            | (None, k3) \<Rightarrow> del_loop p link desired currentOrder k3)"
  by (simp add: Apply_def p l d c)


lemma add_loop_succeeds:
  assumes "\<forall>link addr s. fst (AddrAdd p link addr s) = None"
  shows "\<exists>k'. add_loop p link current es k = (None, k')"
proof (induction es arbitrary: k)
  case Nil
  then show ?case by simp
next
  case (Cons e es)
  obtain key addr where e: "e = (key, addr)" by (cases e)
  obtain r1 k1 where d: "do_AddrAdd p link addr k = (r1, k1)" by (cases "do_AddrAdd p link addr k")
  then have "r1 = None" using assms[rule_format, of link addr "kstate k"]
    by (auto simp: do_AddrAdd_def split: prod.splits)
  with d e Cons show ?case by simp
qed

lemma del_loop_succeeds:
  assumes "\<forall>link addr s. fst (AddrDel p link addr s) = None"
  shows "\<exists>k'. del_loop p link desired es k = (None, k')"
proof (induction es arbitrary: k)
  case Nil
  then show ?case by simp
next
  case (Cons e es)
  obtain key addr where e: "e = (key, addr)" by (cases e)
  obtain r1 k1 where d: "do_AddrDel p link addr k = (r1, k1)" by (cases "do_AddrDel p link addr k")
  then have "r1 = None" using assms[rule_format, of link addr "kstate k"]
    by (auto simp: do_AddrDel_def split: prod.splits)
  with d e Cons show ?case by simp
qed

lemma Apply_succeeds:
  assumes p: "Provider n = Some p"
    and l: "do_LinkByName p (cfg_Interface cfg) k = (Inr link, k1)"
    and d: "parseDesiredAddresses lib (Addresses cfg) = Inr (desired, families)"
    and c: "collectCurrent lib p link families k1 = (Inr current, k2)"
    and na: "\<forall>link addr s. fst (AddrAdd p link addr s) = None"
    and nd: "\<forall>link addr s. fst (AddrDel p link addr s) = None"
  shows "\<exists>k3. Apply lib n desiredOrder currentOrder cfg k = (None, k3)"
proof -
  from add_loop_succeeds[OF na] obtain k3' where
    a: "add_loop p link current desiredOrder k2 = (None, k3')" by blast
  from del_loop_succeeds[OF nd] obtain k3 where
    "del_loop p link desired currentOrder k3' = (None, k3)" by blast
  with a show ?thesis unfolding Apply_reaches_loops[OF p l d c] by simp
qed

text \<open>
  When the two maps have the same keys, \<open>Apply\<close> returns no error and its only calls are
  the lookup and the listings: no \<open>AddrAdd\<close>, no \<open>AddrDel\<close>.
\<close>

lemma Apply_same_keys:
  assumes p: "Provider n = Some p"
    and l: "do_LinkByName p (cfg_Interface cfg) k = (Inr link, k1)"
    and d: "parseDesiredAddresses lib (Addresses cfg) = Inr (desired, families)"
    and c: "collectCurrent lib p link families k1 = (Inr current, k2)"
    and dO: "range_entries desired desiredOrder" and cO: "range_entries current currentOrder"
    and same: "dom current = dom desired"
  shows "Apply lib n desiredOrder currentOrder cfg k = (None, k2)
       \<and> calls k2 = calls k @ CallLinkByName (cfg_Interface cfg) # map (CallAddrList link) families"
proof -
  have a0: "adds_of current desiredOrder = []"
    using adds_of_facts(2)[OF dO, of current] same by simp
  have d0: "dels_of desired currentOrder = []"
    using dels_of_facts(2)[OF cO, of desired] same by simp
  have al: "add_loop p link current es k' = (None, k')" if "adds_of current es = []" for es k'
    using that by (induction es) (auto simp: adds_of_def split: if_splits)
  have dl: "del_loop p link desired es k' = (None, k')" if "dels_of desired es = []" for es k'
    using that by (induction es) (auto simp: dels_of_def split: if_splits)
  have 1: "Apply lib n desiredOrder currentOrder cfg k = (None, k2)"
    unfolding Apply_reaches_loops[OF p l d c] by (simp add: al[OF a0] dl[OF d0])
  have 2: "calls k2 = calls k @ CallLinkByName (cfg_Interface cfg) # map (CallAddrList link) families"
    using calls_do_LinkByName[OF l] collectCurrent_calls[OF c] by simp
  show ?thesis by (intro conjI 1 2)
qed

text \<open>
  Claim C7, as amended. With a configured provider: if \<open>LinkByName\<close> fails, \<open>Apply\<close> returns
  the lookup error; if \<open>LinkByName\<close> succeeds and some raw address fails to parse, \<open>Apply\<close>
  returns the ValidationError that names the first unparseable entry. In both cases the
  only provider call made is the lookup: no \<open>AddrList\<close>, \<open>AddrAdd\<close> or \<open>AddrDel\<close>.
\<close>

theorem Apply_aborts_before_mutation:
  assumes p: "Provider n = Some p" and l: "do_LinkByName p (cfg_Interface cfg) k = (res, k1)"
  shows "(\<forall>err. res = Inl err \<longrightarrow>
            Apply lib n desiredOrder currentOrder cfg k
              = (Some (LookupInterface (cfg_Interface cfg) err), k1)
            \<and> is_LookupError (LookupInterface (cfg_Interface cfg) err))
       \<and> (\<forall>link good bad rest err.
            res = Inr link \<longrightarrow> Addresses cfg = good @ bad # rest
            \<longrightarrow> (\<forall>g\<in>set good. \<exists>addr. ParseAddr lib g = Inr addr) \<longrightarrow> ParseAddr lib bad = Inl err
            \<longrightarrow> Apply lib n desiredOrder currentOrder cfg k = (Some (ParseAddress bad err), k1)
               \<and> is_ValidationError (ParseAddress bad err))
       \<and> calls k1 = calls k @ [CallLinkByName (cfg_Interface cfg)]"
proof -
  have 1: "\<forall>err. res = Inl err \<longrightarrow>
            Apply lib n desiredOrder currentOrder cfg k
              = (Some (LookupInterface (cfg_Interface cfg) err), k1)
            \<and> is_LookupError (LookupInterface (cfg_Interface cfg) err)"
    using p l by (simp add: Apply_def)
  have 2: "\<forall>link good bad rest err.
            res = Inr link \<longrightarrow> Addresses cfg = good @ bad # rest
            \<longrightarrow> (\<forall>g\<in>set good. \<exists>addr. ParseAddr lib g = Inr addr) \<longrightarrow> ParseAddr lib bad = Inl err
            \<longrightarrow> Apply lib n desiredOrder currentOrder cfg k = (Some (ParseAddress bad err), k1)
               \<and> is_ValidationError (ParseAddress bad err)"
  proof (intro allI impI)
    fix link good bad rest err
    assume h: "res = Inr link" "Addresses cfg = good @ bad # rest"
      "\<forall>g\<in>set good. \<exists>addr. ParseAddr lib g = Inr addr" "ParseAddr lib bad = Inl err"
    have "parseDesiredAddresses lib (Addresses cfg) = Inl (ParseAddress bad err)"
      unfolding parseDesiredAddresses_def h(2) using h(3,4) by (rule parse_loop_Inl)
    then show "Apply lib n desiredOrder currentOrder cfg k = (Some (ParseAddress bad err), k1)
               \<and> is_ValidationError (ParseAddress bad err)"
      using p l h(1) by (simp add: Apply_def)
  qed
  show ?thesis by (intro conjI 1 2 calls_do_LinkByName[OF l])
qed

text \<open>
  Claim C5. \<open>Applier.Apply\<close> over the netlink executor, on a configuration with an empty
  interface name or an empty address list, returns a ValidationError and leaves the state
  as it was: no provider method has been invoked. (The check is the Applier's:
  \<open>demo_executor_does_not_validate\<close> shows the executor called directly.)
\<close>

theorem Applier_Apply_validates:
  assumes "cfg_Interface cfg = [] \<or> Addresses cfg = []"
  shows "Applier_Apply \<lparr>executor = Some (Apply lib n desiredOrder currentOrder)\<rparr> cfg k
           = (Some (ErrorNew (if cfg_Interface cfg = [] then ''interface is required''
                              else ''at least one address is required'')), k)
         \<and> is_ValidationError (ErrorNew (if cfg_Interface cfg = [] then ''interface is required''
                                          else ''at least one address is required''))"
  using assms by (auto simp: Applier_Apply_def)

lemma issued_append: "calls k' = calls k @ xs \<Longrightarrow> issued k k' = xs"
  by (simp add: issued_def)

lemma filter_is_AddrList_others [simp]:
  "filter is_AddrList (map (\<lambda>e. CallAddrAdd link (snd e)) es) = []"
  "filter is_AddrList (map (\<lambda>e. CallAddrDel link (snd e)) es) = []"
  by (induction es) simp_all

lemma filter_is_AddrList [simp]:
  "filter is_AddrList (map (CallAddrList link) fs) = map (CallAddrList link) fs"
  by (induction fs) simp_all

lemma Apply_cases:
  assumes p: "Provider n = Some p" and r: "Apply lib n desiredOrder currentOrder cfg k = (res, k')"
  obtains
    (lookup) err where "do_LinkByName p (cfg_Interface cfg) k = (Inl err, k')"
  | (parse) link err where "do_LinkByName p (cfg_Interface cfg) k = (Inr link, k')"
      "parseDesiredAddresses lib (Addresses cfg) = Inl err"
  | (list) link k1 desired families err where
      "do_LinkByName p (cfg_Interface cfg) k = (Inr link, k1)"
      "parseDesiredAddresses lib (Addresses cfg) = Inr (desired, families)"
      "collectCurrent lib p link families k1 = (Inl err, k')"
  | (add) link k1 desired families current k2 err where
      "do_LinkByName p (cfg_Interface cfg) k = (Inr link, k1)"
      "parseDesiredAddresses lib (Addresses cfg) = Inr (desired, families)"
      "collectCurrent lib p link families k1 = (Inr current, k2)"
      "add_loop p link current desiredOrder k2 = (Some err, k')"
  | (del) link k1 desired families current k2 k3 where
      "do_LinkByName p (cfg_Interface cfg) k = (Inr link, k1)"
      "parseDesiredAddresses lib (Addresses cfg) = Inr (desired, families)"
      "collectCurrent lib p link families k1 = (Inr current, k2)"
      "add_loop p link current desiredOrder k2 = (None, k3)"
      "del_loop p link desired currentOrder k3 = (res, k')"
proof -
  obtain lres k1 where l: "do_LinkByName p (cfg_Interface cfg) k = (lres, k1)"
    by (cases "do_LinkByName p (cfg_Interface cfg) k")
  show thesis
  proof (cases lres)
    case (Inl err)
    with p r l have "k' = k1" by (simp add: Apply_def)
    with l Inl show thesis by (intro lookup[of err]) simp
  next
    case (Inr link)
    note link = this
    show thesis
    proof (cases "parseDesiredAddresses lib (Addresses cfg)")
      case (Inl err)
      with p r l link have "k' = k1" by (simp add: Apply_def)
      with l link Inl show thesis by (intro parse[of link err]) simp_all
    next
      case (Inr df)
      obtain desired families where df: "df = (desired, families)" by (cases df)
      note d = Inr[unfolded df]
      obtain cres k2 where c: "collectCurrent lib p link families k1 = (cres, k2)"
        by (cases "collectCurrent lib p link families k1")
      show thesis
      proof (cases cres)
        case (Inl err)
        with p r l link d c have "k' = k2" by (simp add: Apply_def)
        with l link d c Inl show thesis by (intro list[of link k1 desired families err]) simp_all
      next
        case (Inr current)
        note c' = c[unfolded Inr]
        note ap = r[unfolded Apply_reaches_loops[OF p l[unfolded link] d c']]
        obtain r3 k3 where a: "add_loop p link current desiredOrder k2 = (r3, k3)"
          by (cases "add_loop p link current desiredOrder k2")
        show thesis
        proof (cases r3)
          case None
          with ap a have "del_loop p link desired currentOrder k3 = (res, k')" by simp
          with l link d c' a None show thesis
            by (intro del[of link k1 desired families current k2 k3]) simp_all
        next
          case (Some err)
          with ap a have "k' = k3" by simp
          with l link d c' a Some show thesis
            by (intro add[of link k1 desired families current k2 err]) simp_all
        qed
      qed
    qed
  qed
qed

lemma collectCurrent_partial_calls:
  "collectCurrent lib p link families k = (res, k') \<Longrightarrow>
     \<exists>m\<le>length families. calls k' = calls k @ map (CallAddrList link) (take m families)"
  using collect_current_loop_calls[of lib p link families Map.empty k res k']
  by (auto simp: collectCurrent_def)

lemma collectCurrent_families:
  assumes "\<forall>link family s addrs s'. family \<in> set families
              \<longrightarrow> AddrList p link family s = (Inr addrs, s')
              \<longrightarrow> (\<forall>addr\<in>set addrs. addrFamily lib addr = family)"
    and "collectCurrent lib p link families k = (Inr current, k')" and "current key = Some addr"
  shows "addrFamily lib addr \<in> set families"
  using collect_current_loop_entries[OF assms(1), of link families Map.empty k current k' key addr]
    assms(2,3) by (simp add: collectCurrent_def)

text \<open>
  Claim C6, as amended. The families of the parsed desired set are the families of the
  parsed addresses, each once. The \<open>AddrList\<close> calls \<open>Apply\<close> issues are calls for an initial
  segment of the list of these families: never another family, never one twice; they are
  calls for all of them once the link is resolved and no listing fails. For a provider
  whose \<open>AddrList\<close> answers each of these families with addresses of that family only,
  every address passed to \<open>AddrDel\<close> has a family of the desired set.
\<close>

theorem Apply_queries_desired_families:
  assumes p: "Provider n = Some p"
    and d: "parseDesiredAddresses lib (Addresses cfg) = Inr (desired, families)"
    and r: "Apply lib n desiredOrder currentOrder cfg k = (res, k')"
    and cO: "\<forall>link k1 current k2. do_LinkByName p (cfg_Interface cfg) k = (Inr link, k1)
               \<longrightarrow> collectCurrent lib p link families k1 = (Inr current, k2)
               \<longrightarrow> range_entries current currentOrder"
  shows "set families = addrFamily lib ` set (parsed_addrs lib (Addresses cfg))
       \<and> distinct families
       \<and> (\<exists>link m. m \<le> length families
             \<and> filter is_AddrList (issued k k') = map (CallAddrList link) (take m families))
       \<and> (\<forall>link k1 current k2. do_LinkByName p (cfg_Interface cfg) k = (Inr link, k1)
             \<longrightarrow> collectCurrent lib p link families k1 = (Inr current, k2)
             \<longrightarrow> filter is_AddrList (issued k k') = map (CallAddrList link) families)
       \<and> ((\<forall>link family s addrs s'. family \<in> set families
               \<longrightarrow> AddrList p link family s = (Inr addrs, s')
               \<longrightarrow> (\<forall>addr\<in>set addrs. addrFamily lib addr = family))
            \<longrightarrow> (\<forall>link addr. CallAddrDel link addr \<in> set (issued k k')
                   \<longrightarrow> addrFamily lib addr \<in> set families))"
  (is "?A \<and> ?B \<and> ?C \<and> ?D \<and> ?E")
proof -
  note f = parseDesiredAddresses_facts[OF d]
  from p r have "?C \<and> ?D \<and> ?E"
  proof (cases rule: Apply_cases)
    case (lookup err)
    from calls_do_LinkByName[OF lookup]
    have i: "issued k k' = [CallLinkByName (cfg_Interface cfg)]" by (rule issued_append)
    have "filter is_AddrList (issued k k') = map (CallAddrList undefined) (take 0 families)"
      by (simp add: i)
    then have ?C by blast
    moreover have ?D using lookup by simp
    moreover have ?E by (simp add: i)
    ultimately show ?thesis by blast
  next
    case (parse link err)
    with d show ?thesis by simp
  next
    case (list link k1 desired' families' err)
    with d have e: "families' = families" by simp
    from collectCurrent_partial_calls[OF list(3)] obtain m where m: "m \<le> length families"
      "calls k' = calls k1 @ map (CallAddrList link) (take m families)" unfolding e by blast
    with calls_do_LinkByName[OF list(1)]
    have i: "issued k k' = CallLinkByName (cfg_Interface cfg) # map (CallAddrList link) (take m families)"
      by (intro issued_append) simp
    have "filter is_AddrList (issued k k') = map (CallAddrList link) (take m families)"
      by (simp add: i)
    with m(1) have ?C by blast
    moreover have ?D using list e by simp
    moreover have ?E by (auto simp: i)
    ultimately show ?thesis by blast
  next
    case (add link k1 desired' families' current k2 err)
    with d have e: "families' = families" by simp
    from add_loop_calls[OF add(4)] obtain ma where
      "calls k' = calls k2 @ map (\<lambda>e. CallAddrAdd link (snd e)) (take ma (adds_of current desiredOrder))"
      by blast
    with calls_do_LinkByName[OF add(1)] collectCurrent_calls[OF add(3)]
    have i: "issued k k' = CallLinkByName (cfg_Interface cfg) # map (CallAddrList link) families
               @ map (\<lambda>e. CallAddrAdd link (snd e)) (take ma (adds_of current desiredOrder))"
      unfolding e by (intro issued_append) simp
    have x: "filter is_AddrList (issued k k') = map (CallAddrList link) families"
      by (simp add: i)
    then have "filter is_AddrList (issued k k') = map (CallAddrList link) (take (length families) families)"
      by simp
    then have ?C by blast
    moreover have ?D using add(1) x by simp
    moreover have ?E by (auto simp: i)
    ultimately show ?thesis by blast
  next
    case (del link k1 desired' families' current k2 k3)
    with d have e: "families' = families" "desired' = desired" by simp_all
    from add_loop_calls[OF del(4)] 
    have c3: "calls k3 = calls k2 @ map (\<lambda>e. CallAddrAdd link (snd e)) (adds_of current desiredOrder)"
      by auto
    from del_loop_calls[OF del(5)] obtain md where
      c4: "calls k' = calls k3 @ map (\<lambda>e. CallAddrDel link (snd e)) (take md (dels_of desired currentOrder))"
      unfolding e by blast
    from c3 c4 calls_do_LinkByName[OF del(1)] collectCurrent_calls[OF del(3)]
    have i: "issued k k' = CallLinkByName (cfg_Interface cfg) # map (CallAddrList link) families
               @ map (\<lambda>e. CallAddrAdd link (snd e)) (adds_of current desiredOrder)
               @ map (\<lambda>e. CallAddrDel link (snd e)) (take md (dels_of desired currentOrder))"
      unfolding e by (intro issued_append) simp
    have x: "filter is_AddrList (issued k k') = map (CallAddrList link) families"
      by (simp add: i)
    then have "filter is_AddrList (issued k k') = map (CallAddrList link) (take (length families) families)"
      by simp
    then have ?C by blast
    moreover have ?D using del(1) x by simp
    moreover have ?E
    proof (intro impI allI)
      fix link' addr
      assume faithful: "\<forall>link family s addrs s'. family \<in> set families
               \<longrightarrow> AddrList p link family s = (Inr addrs, s')
               \<longrightarrow> (\<forall>addr\<in>set addrs. addrFamily lib addr = family)"
        and m: "CallAddrDel link' addr \<in> set (issued k k')"
      from m obtain e' where e': "e' \<in> set (take md (dels_of desired currentOrder))" "snd e' = addr"
        by (auto simp: i)
      then have "e' \<in> set currentOrder" by (auto simp: dels_of_def dest: in_set_takeD)
      moreover have "range_entries current currentOrder"
        using cO del(1) del(3)[unfolded e] by blast
      ultimately have "current (fst e') = Some addr" using e'(2) by (auto dest: range_entries_mem)
      from collectCurrent_families[OF faithful del(3)[unfolded e] this]
      show "addrFamily lib addr \<in> set families" .
    qed
    ultimately show ?thesis by blast
  qed
  with f(2,3) show ?thesis by blast
qed


lemmas demo_defs = demo_lib_def demo_provider_def demo_kernel_def demo_a5_def demo_a10_def demo_a6_def demo_cfg_def
  demo_desired_def demo_current_def demo_desiredOrder_def demo_currentOrder_def
  addrFamily_def FAMILY_V4_def FAMILY_V6_def

lemma demo_link:
  "do_LinkByName demo_provider (cfg_Interface demo_cfg) (demo_kernel [demo_a5, demo_a10])
     = (Inr (), \<lparr>kstate = [demo_a5, demo_a10], calls = [CallLinkByName ''eth0'']\<rparr>)"
  by (simp add: do_LinkByName_def demo_defs)

lemma demo_parse:
  "parseDesiredAddresses demo_lib (Addresses demo_cfg) = Inr (demo_desired, [FAMILY_V4, FAMILY_V6])"
  by (simp add: parseDesiredAddresses_def demo_defs)

lemma demo_collectCurrent:
  "collectCurrent demo_lib demo_provider () [FAMILY_V4, FAMILY_V6]
       \<lparr>kstate = [demo_a5, demo_a10], calls = [CallLinkByName ''eth0'']\<rparr>
     = (Inr demo_current,
        \<lparr>kstate = [demo_a5, demo_a10],
         calls = [CallLinkByName ''eth0'', CallAddrList () FAMILY_V4, CallAddrList () FAMILY_V6]\<rparr>)"
  by (simp add: collectCurrent_def do_AddrList_def demo_defs)

lemma demo_orders:
  "range_entries demo_desired demo_desiredOrder" "range_entries demo_current demo_currentOrder"
  by (simp_all add: range_entries_def demo_defs)

lemma demo_Apply:
  "Apply demo_lib \<lparr>Provider = Some demo_provider\<rparr> demo_desiredOrder demo_currentOrder demo_cfg
       (demo_kernel [demo_a5, demo_a10])
     = (None,
        \<lparr>kstate = [demo_a10, demo_a6],
         calls = [CallLinkByName ''eth0'', CallAddrList () FAMILY_V4, CallAddrList () FAMILY_V6,
                  CallAddrAdd () demo_a6, CallAddrDel () demo_a5]\<rparr>)"
proof -
  have p: "Provider \<lparr>Provider = Some demo_provider\<rparr> = Some demo_provider" by simp
  show ?thesis
    unfolding Apply_reaches_loops[OF p demo_link demo_parse demo_collectCurrent]
    by (simp add: do_AddrAdd_def do_AddrDel_def demo_defs)
qed

lemma demo_provider_sel: "Provider \<lparr>Provider = Some p\<rparr> = Some p"
  by simp

lemmas demo_label_defs = demo_label_lib_def demo_labelled_def demo_cfg_label_def







lemma demo_duplicates:
  "Apply demo_lib \<lparr>Provider = Some demo_provider\<rparr> [(''10.0.0.10/24'', demo_a10)] []
       \<lparr>cfg_Interface = ''eth0'', Addresses = [''10.0.0.10/24'', ''10.0.0.10/24'']\<rparr> (demo_kernel [])
     = (None,
        \<lparr>kstate = [demo_a10],
         calls = [CallLinkByName ''eth0'', CallAddrList () FAMILY_V4, CallAddrAdd () demo_a10]\<rparr>)"
  by (simp add: Apply_def parseDesiredAddresses_def collectCurrent_def do_LinkByName_def
        do_AddrList_def do_AddrAdd_def demo_defs)


lemma demo_Apply_twice:
  "Provider \<lparr>Provider = Some demo_provider\<rparr> = Some demo_provider
   \<and> Apply demo_lib \<lparr>Provider = Some demo_provider\<rparr> demo_desiredOrder demo_currentOrder demo_cfg
         (demo_kernel [demo_a5, demo_a10]) = (None, demo_after)
   \<and> parseDesiredAddresses demo_lib (Addresses demo_cfg) = Inr (demo_desired, [FAMILY_V4, FAMILY_V6])
   \<and> collectCurrent demo_lib demo_provider () [FAMILY_V4, FAMILY_V6]
         (demo_after\<lparr>calls := calls demo_after @ [CallLinkByName ''eth0'']\<rparr>)
       = (Inr demo_desired,
          demo_after\<lparr>calls := calls demo_after @ [CallLinkByName ''eth0'', CallAddrList () FAMILY_V4,
                                                  CallAddrList () FAMILY_V6]\<rparr>)
   \<and> range_entries demo_desired demo_desiredOrder
   \<and> Apply demo_lib \<lparr>Provider = Some demo_provider\<rparr> demo_desiredOrder demo_desiredOrder demo_cfg
         demo_after
       = (None, demo_after\<lparr>calls := calls demo_after @ [CallLinkByName ''eth0'',
                               CallAddrList () FAMILY_V4, CallAddrList () FAMILY_V6]\<rparr>)"
proof -
  note ap = demo_Apply[folded demo_after_def]
  have l: "do_LinkByName demo_provider (cfg_Interface demo_cfg) demo_after
            = (Inr (), demo_after\<lparr>calls := calls demo_after @ [CallLinkByName ''eth0'']\<rparr>)"
    by (simp add: do_LinkByName_def demo_after_def demo_defs)
  have c: "collectCurrent demo_lib demo_provider () [FAMILY_V4, FAMILY_V6]
         (demo_after\<lparr>calls := calls demo_after @ [CallLinkByName ''eth0'']\<rparr>)
       = (Inr demo_desired,
          demo_after\<lparr>calls := calls demo_after @ [CallLinkByName ''eth0'', CallAddrList () FAMILY_V4,
                                                  CallAddrList () FAMILY_V6]\<rparr>)"
    by (simp add: collectCurrent_def do_AddrList_def demo_after_def demo_defs)
  have same: "dom demo_desired = dom demo_desired" by simp
  note th = Apply_same_keys[OF demo_provider_sel l demo_parse c demo_orders(1) demo_orders(1) same]
  show ?thesis
    by (intro conjI demo_provider_sel ap demo_parse c demo_orders(1) th[THEN conjunct1])
qed

text \<open>
  Claim C2 does not hold of the code. \<open>parseDesiredAddresses\<close> keys \<open>desired\<close> by
  \<open>Addr.String()\<close>, which renders the label of an address, and \<open>collectCurrent\<close> keys
  \<open>current\<close> by \<open>Addr.IPNet.String()\<close>, which does not. For the desired entry
  \<open>10.0.0.1/24 eth0\<close> on an empty link the first \<open>Apply\<close> adds the address. The live state
  then holds exactly the desired address, and the canonical keys of the desired and of
  the current addresses are both \<open>10.0.0.1/24\<close>; yet the second \<open>Apply\<close>, on that unchanged
  state, finds the key \<open>10.0.0.1/24 eth0\<close> missing from \<open>current\<close> and the key \<open>10.0.0.1/24\<close>
  missing from \<open>desired\<close>: it issues an \<open>AddrAdd\<close> and an \<open>AddrDel\<close> for the address and
  leaves the link without it.
\<close>

theorem Apply_twice_with_label:
  "parseDesiredAddresses demo_label_lib (Addresses demo_cfg_label)
     = Inr ([''10.0.0.1/24 eth0'' \<mapsto> demo_labelled], [FAMILY_V4])
   \<and> Apply demo_label_lib \<lparr>Provider = Some demo_provider\<rparr> [(''10.0.0.1/24 eth0'', demo_labelled)] []
         demo_cfg_label (demo_kernel [])
       = (None,
          \<lparr>kstate = [demo_labelled],
           calls = [CallLinkByName ''eth0'', CallAddrList () FAMILY_V4, CallAddrAdd () demo_labelled]\<rparr>)
   \<and> collectCurrent demo_label_lib demo_provider () [FAMILY_V4]
         \<lparr>kstate = [demo_labelled], calls = [CallLinkByName ''eth0'']\<rparr>
       = (Inr [''10.0.0.1/24'' \<mapsto> demo_labelled],
          \<lparr>kstate = [demo_labelled], calls = [CallLinkByName ''eth0'', CallAddrList () FAMILY_V4]\<rparr>)
   \<and> IPNet_String demo_label_lib ` set (parsed_addrs demo_label_lib (Addresses demo_cfg_label))
       = dom [''10.0.0.1/24'' \<mapsto> demo_labelled]
   \<and> range_entries [''10.0.0.1/24 eth0'' \<mapsto> demo_labelled] [(''10.0.0.1/24 eth0'', demo_labelled)]
   \<and> range_entries [''10.0.0.1/24'' \<mapsto> demo_labelled] [(''10.0.0.1/24'', demo_labelled)]
   \<and> Apply demo_label_lib \<lparr>Provider = Some demo_provider\<rparr> [(''10.0.0.1/24 eth0'', demo_labelled)]
         [(''10.0.0.1/24'', demo_labelled)] demo_cfg_label (demo_kernel [demo_labelled])
       = (None,
          \<lparr>kstate = [],
           calls = [CallLinkByName ''eth0'', CallAddrList () FAMILY_V4, CallAddrAdd () demo_labelled,
                    CallAddrDel () demo_labelled]\<rparr>)"
proof -
  have 1: "parseDesiredAddresses demo_label_lib (Addresses demo_cfg_label)
     = Inr ([''10.0.0.1/24 eth0'' \<mapsto> demo_labelled], [FAMILY_V4])"
    by (simp add: parseDesiredAddresses_def demo_label_defs demo_defs)
  have 2: "Apply demo_label_lib \<lparr>Provider = Some demo_provider\<rparr> [(''10.0.0.1/24 eth0'', demo_labelled)] []
         demo_cfg_label (demo_kernel [])
       = (None,
          \<lparr>kstate = [demo_labelled],
           calls = [CallLinkByName ''eth0'', CallAddrList () FAMILY_V4, CallAddrAdd () demo_labelled]\<rparr>)"
    by (simp add: Apply_def parseDesiredAddresses_def collectCurrent_def do_LinkByName_def
        do_AddrList_def do_AddrAdd_def demo_label_defs demo_defs)
  have 3: "collectCurrent demo_label_lib demo_provider () [FAMILY_V4]
         \<lparr>kstate = [demo_labelled], calls = [CallLinkByName ''eth0'']\<rparr>
       = (Inr [''10.0.0.1/24'' \<mapsto> demo_labelled],
          \<lparr>kstate = [demo_labelled], calls = [CallLinkByName ''eth0'', CallAddrList () FAMILY_V4]\<rparr>)"
    by (simp add: collectCurrent_def do_AddrList_def demo_label_defs demo_defs)
  have 4: "IPNet_String demo_label_lib ` set (parsed_addrs demo_label_lib (Addresses demo_cfg_label))
       = dom [''10.0.0.1/24'' \<mapsto> demo_labelled]"
    by (simp add: parsed_addrs_def demo_label_defs)
  have 5: "range_entries [''10.0.0.1/24 eth0'' \<mapsto> demo_labelled] [(''10.0.0.1/24 eth0'', demo_labelled)]"
    "range_entries [''10.0.0.1/24'' \<mapsto> demo_labelled] [(''10.0.0.1/24'', demo_labelled)]"
    by (simp_all add: range_entries_def)
  have l: "do_LinkByName demo_provider (cfg_Interface demo_cfg_label) (demo_kernel [demo_labelled])
       = (Inr (), \<lparr>kstate = [demo_labelled], calls = [CallLinkByName ''eth0'']\<rparr>)"
    by (simp add: do_LinkByName_def demo_label_defs demo_defs)
  have 6: "Apply demo_label_lib \<lparr>Provider = Some demo_provider\<rparr> [(''10.0.0.1/24 eth0'', demo_labelled)]
         [(''10.0.0.1/24'', demo_labelled)] demo_cfg_label (demo_kernel [demo_labelled])
       = (None,
          \<lparr>kstate = [],
           calls = [CallLinkByName ''eth0'', CallAddrList () FAMILY_V4, CallAddrAdd () demo_labelled,
                    CallAddrDel () demo_labelled]\<rparr>)"
    unfolding Apply_reaches_loops[OF demo_provider_sel l 1 3]
    by (simp add: do_AddrAdd_def do_AddrDel_def demo_provider_def)
  show ?thesis by (intro conjI 1 2 3 4 5 6)
qed

theorem Applier_Apply_validates_witness:
  "cfg_Interface \<lparr>cfg_Interface = [], Addresses = [''10.0.0.1/24'']\<rparr> = []
   \<and> Applier_Apply \<lparr>executor = Some (Apply demo_lib \<lparr>Provider = Some demo_provider\<rparr> [] [])\<rparr>
         \<lparr>cfg_Interface = [], Addresses = [''10.0.0.1/24'']\<rparr> (demo_kernel [demo_a5])
       = (Some (ErrorNew ''interface is required''), demo_kernel [demo_a5])
   \<and> Addresses \<lparr>cfg_Interface = ''eth0'', Addresses = []\<rparr> = []
   \<and> Applier_Apply \<lparr>executor = Some (Apply demo_lib \<lparr>Provider = Some demo_provider\<rparr> [] [])\<rparr>
         \<lparr>cfg_Interface = ''eth0'', Addresses = []\<rparr> (demo_kernel [demo_a5])
       = (Some (ErrorNew ''at least one address is required''), demo_kernel [demo_a5])
   \<and> calls (demo_kernel [demo_a5]) = []"
  using Applier_Apply_validates[of "\<lparr>cfg_Interface = [], Addresses = [''10.0.0.1/24'']\<rparr>"
      demo_lib "\<lparr>Provider = Some demo_provider\<rparr>" "[]" "[]" "demo_kernel [demo_a5]"]
    Applier_Apply_validates[of "\<lparr>cfg_Interface = ''eth0'', Addresses = []\<rparr>"
      demo_lib "\<lparr>Provider = Some demo_provider\<rparr>" "[]" "[]" "demo_kernel [demo_a5]"]
  by (simp add: demo_kernel_def)

lemma demo_executor_does_not_validate:
  "Apply demo_lib \<lparr>Provider = Some demo_provider\<rparr> [] []
       \<lparr>cfg_Interface = ''eth0'', Addresses = []\<rparr> (demo_kernel [demo_a5])
     = (None, \<lparr>kstate = [demo_a5], calls = [CallLinkByName ''eth0'']\<rparr>)"
  by (simp add: Apply_def parseDesiredAddresses_def collectCurrent_def do_LinkByName_def demo_defs)

lemma demo_parse_v4:
  "parseDesiredAddresses demo_lib (Addresses demo_cfg_v4) = Inr (demo_desired_v4, [FAMILY_V4])"
  by (simp add: parseDesiredAddresses_def demo_cfg_v4_def demo_desired_v4_def demo_defs)

lemma demo_link_v4:
  "do_LinkByName demo_provider (cfg_Interface demo_cfg_v4) (demo_kernel [demo_a6, demo_a5])
     = (Inr (), \<lparr>kstate = [demo_a6, demo_a5], calls = [CallLinkByName ''eth0'']\<rparr>)"
  by (simp add: do_LinkByName_def demo_cfg_v4_def demo_defs)

lemma demo_collectCurrent_v4:
  "collectCurrent demo_lib demo_provider () [FAMILY_V4]
       \<lparr>kstate = [demo_a6, demo_a5], calls = [CallLinkByName ''eth0'']\<rparr>
     = (Inr [''10.0.0.5/24'' \<mapsto> demo_a5],
        \<lparr>kstate = [demo_a6, demo_a5], calls = [CallLinkByName ''eth0'', CallAddrList () FAMILY_V4]\<rparr>)"
  by (simp add: collectCurrent_def do_AddrList_def demo_defs)

lemma demo_Apply_v4:
  "Apply demo_lib \<lparr>Provider = Some demo_provider\<rparr> [(''10.0.0.10/24'', demo_a10)] [(''10.0.0.5/24'', demo_a5)]
       demo_cfg_v4 (demo_kernel [demo_a6, demo_a5]) = (None, demo_after_v4)"
  unfolding Apply_reaches_loops[OF demo_provider_sel demo_link_v4 demo_parse_v4 demo_collectCurrent_v4]
  by (simp add: do_AddrAdd_def do_AddrDel_def demo_after_v4_def demo_desired_v4_def demo_defs)

theorem Apply_queries_desired_families_witness:
  "Provider \<lparr>Provider = Some demo_provider\<rparr> = Some demo_provider
   \<and> parseDesiredAddresses demo_lib (Addresses demo_cfg_v4) = Inr (demo_desired_v4, [FAMILY_V4])
   \<and> Apply demo_lib \<lparr>Provider = Some demo_provider\<rparr> [(''10.0.0.10/24'', demo_a10)] [(''10.0.0.5/24'', demo_a5)]
         demo_cfg_v4 (demo_kernel [demo_a6, demo_a5]) = (None, demo_after_v4)
   \<and> range_entries [''10.0.0.5/24'' \<mapsto> demo_a5] [(''10.0.0.5/24'', demo_a5)]
   \<and> filter is_AddrList (issued (demo_kernel [demo_a6, demo_a5]) demo_after_v4) = [CallAddrList () FAMILY_V4]
   \<and> addrFamily demo_lib demo_a5 \<in> set [FAMILY_V4]
   \<and> addrFamily demo_lib demo_a6 \<notin> set [FAMILY_V4]
   \<and> CallAddrDel () demo_a6 \<notin> set (issued (demo_kernel [demo_a6, demo_a5]) demo_after_v4)
   \<and> demo_a6 \<in> set (kstate demo_after_v4)"
proof -
  have ro: "range_entries [''10.0.0.5/24'' \<mapsto> demo_a5] [(''10.0.0.5/24'', demo_a5)]"
    by (simp add: range_entries_def)
  have cO: "\<forall>link k1 current k2.
      do_LinkByName demo_provider (cfg_Interface demo_cfg_v4) (demo_kernel [demo_a6, demo_a5]) = (Inr link, k1)
      \<longrightarrow> collectCurrent demo_lib demo_provider link [FAMILY_V4] k1 = (Inr current, k2)
      \<longrightarrow> range_entries current [(''10.0.0.5/24'', demo_a5)]"
    using ro by (auto simp: demo_link_v4 demo_collectCurrent_v4)
  note th = Apply_queries_desired_families[OF demo_provider_sel demo_parse_v4 demo_Apply_v4 cO]
  have faithful: "\<forall>link family s addrs s'. family \<in> set [FAMILY_V4]
               \<longrightarrow> AddrList demo_provider link family s = (Inr addrs, s')
               \<longrightarrow> (\<forall>addr\<in>set addrs. addrFamily demo_lib addr = family)"
    by (auto simp: demo_provider_def)
  have del: "CallAddrDel () demo_a5 \<in> set (issued (demo_kernel [demo_a6, demo_a5]) demo_after_v4)"
    by (simp add: issued_def demo_after_v4_def demo_kernel_def)
  from th have D: "filter is_AddrList (issued (demo_kernel [demo_a6, demo_a5]) demo_after_v4)
                   = map (CallAddrList ()) [FAMILY_V4]"
    using demo_link_v4 demo_collectCurrent_v4 by blast
  from th faithful del have E: "addrFamily demo_lib demo_a5 \<in> set [FAMILY_V4]" by blast
  have 1: "addrFamily demo_lib demo_a6 \<notin> set [FAMILY_V4]" by (simp add: demo_defs)
  have 2: "CallAddrDel () demo_a6 \<notin> set (issued (demo_kernel [demo_a6, demo_a5]) demo_after_v4)"
    by (simp add: issued_def demo_after_v4_def demo_kernel_def demo_a5_def demo_a6_def)
  have 3: "demo_a6 \<in> set (kstate demo_after_v4)" by (simp add: demo_after_v4_def)
  from D have D': "filter is_AddrList (issued (demo_kernel [demo_a6, demo_a5]) demo_after_v4)
                   = [CallAddrList () FAMILY_V4]" by simp
  show ?thesis
    by (intro conjI demo_provider_sel demo_parse_v4 demo_Apply_v4 ro D' E 1 2 3)
qed

text \<open>
  The claim as stated fails in two ways. When a listing fails: with an IPv4 and an IPv6
  address desired and an \<open>AddrList\<close> that returns an error, \<open>Apply\<close> stops after the IPv4
  listing and never lists IPv6. When the provider answers a listing with addresses of
  another family: with only an IPv4 address desired and an \<open>AddrList\<close> that returns every
  address of the link, the IPv6 address of the link is passed to \<open>AddrDel\<close>, though IPv6
  is absent from the desired set.
\<close>

theorem Apply_queries_desired_families_counterexample:
  "parseDesiredAddresses demo_lib (Addresses demo_cfg) = Inr (demo_desired, [FAMILY_V4, FAMILY_V6])
   \<and> Apply demo_lib \<lparr>Provider = Some demo_list_fails\<rparr> demo_desiredOrder [] demo_cfg
         (demo_kernel [demo_a5, demo_a10])
       = (Some (ListAddresses FAMILY_V4 (ErrorNew ''boom'')),
          \<lparr>kstate = [demo_a5, demo_a10], calls = [CallLinkByName ''eth0'', CallAddrList () FAMILY_V4]\<rparr>)
   \<and> count_list [CallLinkByName ''eth0'', CallAddrList () FAMILY_V4] (CallAddrList () FAMILY_V6) = 0
   \<and> parseDesiredAddresses demo_lib (Addresses demo_cfg_v4) = Inr (demo_desired_v4, [FAMILY_V4])
   \<and> collectCurrent demo_lib demo_list_all () [FAMILY_V4]
         \<lparr>kstate = [demo_a6, demo_a5], calls = [CallLinkByName ''eth0'']\<rparr>
       = (Inr [''2001:db8::10/64'' \<mapsto> demo_a6, ''10.0.0.5/24'' \<mapsto> demo_a5],
          \<lparr>kstate = [demo_a6, demo_a5], calls = [CallLinkByName ''eth0'', CallAddrList () FAMILY_V4]\<rparr>)
   \<and> range_entries [''2001:db8::10/64'' \<mapsto> demo_a6, ''10.0.0.5/24'' \<mapsto> demo_a5]
         [(''10.0.0.5/24'', demo_a5), (''2001:db8::10/64'', demo_a6)]
   \<and> Apply demo_lib \<lparr>Provider = Some demo_list_all\<rparr> [(''10.0.0.10/24'', demo_a10)]
         [(''10.0.0.5/24'', demo_a5), (''2001:db8::10/64'', demo_a6)] demo_cfg_v4
         (demo_kernel [demo_a6, demo_a5])
       = (None,
          \<lparr>kstate = [demo_a10],
           calls = [CallLinkByName ''eth0'', CallAddrList () FAMILY_V4, CallAddrAdd () demo_a10,
                    CallAddrDel () demo_a5, CallAddrDel () demo_a6]\<rparr>)
   \<and> addrFamily demo_lib demo_a6 = FAMILY_V6
   \<and> FAMILY_V6 \<notin> set [FAMILY_V4]"
proof -
  have 1: "Apply demo_lib \<lparr>Provider = Some demo_list_fails\<rparr> demo_desiredOrder [] demo_cfg
         (demo_kernel [demo_a5, demo_a10])
       = (Some (ListAddresses FAMILY_V4 (ErrorNew ''boom'')),
          \<lparr>kstate = [demo_a5, demo_a10], calls = [CallLinkByName ''eth0'', CallAddrList () FAMILY_V4]\<rparr>)"
    by (simp add: Apply_def parseDesiredAddresses_def collectCurrent_def do_LinkByName_def
        do_AddrList_def demo_list_fails_def demo_defs)
  have 2: "count_list [CallLinkByName ''eth0'', CallAddrList () FAMILY_V4] (CallAddrList () FAMILY_V6) = 0"
    by (simp add: FAMILY_V4_def FAMILY_V6_def)
  have l: "do_LinkByName demo_list_all (cfg_Interface demo_cfg_v4) (demo_kernel [demo_a6, demo_a5])
     = (Inr (), \<lparr>kstate = [demo_a6, demo_a5], calls = [CallLinkByName ''eth0'']\<rparr>)"
    by (simp add: do_LinkByName_def demo_list_all_def demo_cfg_v4_def demo_defs)
  have 3: "collectCurrent demo_lib demo_list_all () [FAMILY_V4]
         \<lparr>kstate = [demo_a6, demo_a5], calls = [CallLinkByName ''eth0'']\<rparr>
       = (Inr [''2001:db8::10/64'' \<mapsto> demo_a6, ''10.0.0.5/24'' \<mapsto> demo_a5],
          \<lparr>kstate = [demo_a6, demo_a5], calls = [CallLinkByName ''eth0'', CallAddrList () FAMILY_V4]\<rparr>)"
    by (simp add: collectCurrent_def do_AddrList_def demo_list_all_def demo_defs)
  have 4: "range_entries [''2001:db8::10/64'' \<mapsto> demo_a6, ''10.0.0.5/24'' \<mapsto> demo_a5]
         [(''10.0.0.5/24'', demo_a5), (''2001:db8::10/64'', demo_a6)]"
    by (simp add: range_entries_def)
  have 5: "Apply demo_lib \<lparr>Provider = Some demo_list_all\<rparr> [(''10.0.0.10/24'', demo_a10)]
         [(''10.0.0.5/24'', demo_a5), (''2001:db8::10/64'', demo_a6)] demo_cfg_v4
         (demo_kernel [demo_a6, demo_a5])
       = (None,
          \<lparr>kstate = [demo_a10],
           calls = [CallLinkByName ''eth0'', CallAddrList () FAMILY_V4, CallAddrAdd () demo_a10,
                    CallAddrDel () demo_a5, CallAddrDel () demo_a6]\<rparr>)"
    unfolding Apply_reaches_loops[OF demo_provider_sel l demo_parse_v4 3]
    by (simp add: do_AddrAdd_def do_AddrDel_def demo_list_all_def demo_desired_v4_def demo_defs)
  have 6: "addrFamily demo_lib demo_a6 = FAMILY_V6" by (simp add: demo_defs)
  have 7: "FAMILY_V6 \<notin> set [FAMILY_V4]" by (simp add: FAMILY_V4_def FAMILY_V6_def)
  show ?thesis by (intro conjI demo_parse 1 2 demo_parse_v4 3 4 5 6 7)
qed

theorem Apply_aborts_before_mutation_witness:
  "Provider \<lparr>Provider = Some demo_provider\<rparr> = Some demo_provider
   \<and> do_LinkByName demo_provider (cfg_Interface demo_cfg_bad) (demo_kernel [demo_a5])
       = (Inr (), \<lparr>kstate = [demo_a5], calls = [CallLinkByName ''eth0'']\<rparr>)
   \<and> Addresses demo_cfg_bad = [''10.0.0.10/24''] @ ''not-an-ip'' # [''10.0.0.11'']
   \<and> ParseAddr demo_lib ''10.0.0.10/24'' = Inr demo_a10
   \<and> ParseAddr demo_lib ''not-an-ip'' = Inl (ErrorNew ''invalid CIDR address: not-an-ip'')
   \<and> Apply demo_lib \<lparr>Provider = Some demo_provider\<rparr> [] [(''10.0.0.5/24'', demo_a5)] demo_cfg_bad
         (demo_kernel [demo_a5])
       = (Some (ParseAddress ''not-an-ip'' (ErrorNew ''invalid CIDR address: not-an-ip'')),
          \<lparr>kstate = [demo_a5], calls = [CallLinkByName ''eth0'']\<rparr>)
   \<and> do_LinkByName demo_provider (cfg_Interface demo_cfg_nolink) (demo_kernel [demo_a5])
       = (Inl (ErrorNew ''Link not found''), \<lparr>kstate = [demo_a5], calls = [CallLinkByName ''eth9'']\<rparr>)
   \<and> Apply demo_lib \<lparr>Provider = Some demo_provider\<rparr> [] [(''10.0.0.5/24'', demo_a5)] demo_cfg_nolink
         (demo_kernel [demo_a5])
       = (Some (LookupInterface ''eth9'' (ErrorNew ''Link not found'')),
          \<lparr>kstate = [demo_a5], calls = [CallLinkByName ''eth9'']\<rparr>)"
proof -
  have l: "do_LinkByName demo_provider (cfg_Interface demo_cfg_bad) (demo_kernel [demo_a5])
       = (Inr (), \<lparr>kstate = [demo_a5], calls = [CallLinkByName ''eth0'']\<rparr>)"
    by (simp add: do_LinkByName_def demo_cfg_bad_def demo_defs)
  have a: "Addresses demo_cfg_bad = [''10.0.0.10/24''] @ ''not-an-ip'' # [''10.0.0.11'']"
    by (simp add: demo_cfg_bad_def)
  have g: "ParseAddr demo_lib ''10.0.0.10/24'' = Inr demo_a10" by (simp add: demo_defs)
  then have g': "\<forall>g\<in>set [''10.0.0.10/24'']. \<exists>addr. ParseAddr demo_lib g = Inr addr" by simp
  have b: "ParseAddr demo_lib ''not-an-ip'' = Inl (ErrorNew ''invalid CIDR address: not-an-ip'')"
    by (simp add: demo_defs)
  note th = Apply_aborts_before_mutation[OF demo_provider_sel l, of demo_lib "[]" "[(''10.0.0.5/24'', demo_a5)]"]
  note t2 = th[THEN conjunct2, THEN conjunct1, rule_format, OF refl a g'[rule_format] b, THEN conjunct1]
  have l': "do_LinkByName demo_provider (cfg_Interface demo_cfg_nolink) (demo_kernel [demo_a5])
       = (Inl (ErrorNew ''Link not found''), \<lparr>kstate = [demo_a5], calls = [CallLinkByName ''eth9'']\<rparr>)"
    by (simp add: do_LinkByName_def demo_cfg_nolink_def demo_defs)
  note th' = Apply_aborts_before_mutation[OF demo_provider_sel l', of demo_lib "[]" "[(''10.0.0.5/24'', demo_a5)]"]
  note t1 = th'[THEN conjunct1, rule_format, OF refl, THEN conjunct1]
  have n: "cfg_Interface demo_cfg_nolink = ''eth9''" by (simp add: demo_cfg_nolink_def)
  show ?thesis by (intro conjI demo_provider_sel l a g b t2 l' t1[unfolded n])
qed

text \<open>
  The claim as stated fails when the lookup fails and an address does not parse: the
  lookup comes first, and \<open>Apply\<close> returns the lookup error, not a ValidationError.
\<close>

theorem Apply_aborts_before_mutation_counterexample:
  "ParseAddr demo_lib ''not-an-ip'' = Inl (ErrorNew ''invalid CIDR address: not-an-ip'')
   \<and> Addresses demo_cfg_nolink = [''not-an-ip'']
   \<and> Apply demo_lib \<lparr>Provider = Some demo_provider\<rparr> [] [(''10.0.0.5/24'', demo_a5)] demo_cfg_nolink
         (demo_kernel [demo_a5])
       = (Some (LookupInterface ''eth9'' (ErrorNew ''Link not found'')),
          \<lparr>kstate = [demo_a5], calls = [CallLinkByName ''eth9'']\<rparr>)
   \<and> \<not> is_ValidationError (LookupInterface ''eth9'' (ErrorNew ''Link not found''))"
  by (simp add: Apply_def do_LinkByName_def demo_cfg_nolink_def demo_defs)

end
